theory Spec2Isabelle
  imports Main "HOL-Library.Word"
begin

unbundle bit_operations_syntax

section \<open>Machine types and error codes\<close>

text \<open>
  The decoder of \<^verbatim>\<open>src/util/sps.c\<close> works on \<^verbatim>\<open>uint8_t\<close> bytes and on
  \<^verbatim>\<open>unsigned\<close> values, taken as 32 bits wide: sums, differences and products wrap
  modulo \<open>2 ^ 32\<close>. A left shift is \<open>push_bit\<close>: bits shifted beyond bit 31 are
  lost. C leaves a shift by 32 or more positions undefined, and \<^verbatim>\<open>1 << 31\<close> on
  \<^verbatim>\<open>int\<close> is taken as the bit pattern \<^verbatim>\<open>0x80000000\<close>, as two's-complement
  compilers produce it. Bit positions and bit counts (\<^verbatim>\<open>size_t\<close>) are natural
  numbers; the one product that can exceed \<^verbatim>\<open>size_t\<close>, the bit length handed to
  \<^verbatim>\<open>getbit_init\<close>, is formed in 64-bit words.

  The \<^verbatim>\<open>int\<close> status codes are integers; the three \<^verbatim>\<open>errno\<close> names come
  from the system header, with their Linux values. \<^verbatim>\<open>err |= ...\<close> is \<open>OR\<close> on
  them. Diagnostics printed to \<^verbatim>\<open>stderr\<close> are not part of the model.
\<close>

type_synonym uint8 = "8 word"
type_synonym unsigned = "32 word"

definition EINVAL :: int where
  "EINVAL = 22"

definition EBADMSG :: int where
  "EBADMSG = 74"

definition ENOTSUP :: int where
  "ENOTSUP = 95"

definition MAX_SPS_COUNT :: unsigned where
  "MAX_SPS_COUNT = 32"

definition MAX_LOG2_MAX_FRAME_NUM :: unsigned where
  "MAX_LOG2_MAX_FRAME_NUM = 16"

definition MACROBLOCK_SIZE :: unsigned where
  "MACROBLOCK_SIZE = 16"

definition MAX_MACROBLOCKS :: unsigned where
  "MAX_MACROBLOCKS = 1048576"

section \<open>The bit cursor\<close>

text \<open>
  \<^verbatim>\<open>struct getbit\<close>: the bytes the cursor points at, the bit position and the bit
  length. The field \<open>gb_oob\<close> is not in the C struct: it records that \<^verbatim>\<open>get_bit\<close>
  has dereferenced a byte index outside \<open>gb_buf\<close>, which C would not detect. Such a
  read yields the byte 0 in the model.
\<close>

record getbit =
  gb_buf :: "uint8 list"
  gb_pos :: nat
  gb_end :: nat
  gb_oob :: bool

definition getbit_init :: "uint8 list \<Rightarrow> nat \<Rightarrow> getbit" where
  "getbit_init b size_bits = \<lparr>gb_buf = b, gb_pos = 0, gb_end = size_bits, gb_oob = False\<rparr>"

definition getbit_get_left :: "getbit \<Rightarrow> nat" where
  "getbit_get_left gb = (if gb_end gb > gb_pos gb then gb_end gb - gb_pos gb else 0)"

definition get_bit :: "getbit \<Rightarrow> unsigned \<times> getbit" where
  "get_bit gb =
     (if gb_pos gb \<ge> gb_end gb then (0, gb)
      else
        let idx = drop_bit 3 (gb_pos gb);
            inside = idx < length (gb_buf gb);
            byte = (if inside then gb_buf gb ! idx else 0);
            tmp = ucast (drop_bit (7 - (gb_pos gb AND 7)) byte) AND 1
        in (tmp, gb\<lparr>gb_pos := gb_pos gb + 1, gb_oob := gb_oob gb \<or> \<not> inside\<rparr>))"

section \<open>Exponential-Golomb decoding\<close>

text \<open>The \<^verbatim>\<open>while (1)\<close> loop of \<^verbatim>\<open>get_ue_golomb\<close>, counting leading zero bits.\<close>

function golomb_zeros :: "getbit \<Rightarrow> unsigned \<Rightarrow> int \<times> unsigned \<times> getbit" where
  "golomb_zeros gb zeros =
     (if getbit_get_left gb < 1 then (EBADMSG, zeros, gb)
      else if fst (get_bit gb) = 0 then golomb_zeros (snd (get_bit gb)) (zeros + 1)
      else (0, zeros, snd (get_bit gb)))"
  by pat_completeness auto
termination
  by (relation "measure (\<lambda>(gb, zeros). gb_end gb - gb_pos gb)")
     (auto simp: getbit_get_left_def get_bit_def Let_def split: if_splits)

declare golomb_zeros.simps [simp del]

text \<open>
  The \<^verbatim>\<open>for (i = zeros - 1; i >= 0; i--)\<close> loop, reading the suffix bits; \<open>i\<close> is
  the C \<^verbatim>\<open>int\<close>.
\<close>

function golomb_info :: "getbit \<Rightarrow> int \<Rightarrow> unsigned \<Rightarrow> int \<times> unsigned \<times> getbit" where
  "golomb_info gb i info =
     (if i \<ge> 0 then
        (if getbit_get_left gb < 1 then (EBADMSG, info, gb)
         else golomb_info (snd (get_bit gb)) (i - 1)
                (info OR push_bit (nat i) (fst (get_bit gb))))
      else (0, info, gb))"
  by pat_completeness auto
termination
  by (relation "measure (\<lambda>(gb, i, info). nat (i + 1))") auto

declare golomb_info.simps [simp del]

text \<open>
  \<^verbatim>\<open>get_ue_golomb\<close> returns the status, the value stored through \<^verbatim>\<open>valp\<close> and the
  cursor. Nothing is stored on failure (the value component is 0 then, and no caller
  uses it); a caller passing \<^verbatim>\<open>NULL\<close> ignores the value. For a run of 32 or more
  leading zeros the two shifts are undefined in C (compiled code commonly takes the
  count modulo 32); the model loses the bits shifted out there. Every call site passes the
  address of a local cursor, so the \<^verbatim>\<open>!gb\<close> branch is not reachable.
\<close>

definition get_ue_golomb :: "getbit \<Rightarrow> int \<times> unsigned \<times> getbit" where
  "get_ue_golomb gb =
     (case golomb_zeros gb 0 of (err, zeros, gb1) \<Rightarrow>
        if err \<noteq> 0 then (err, 0, gb1)
        else (case golomb_info gb1 (sint (zeros - 1)) (push_bit (unat zeros) 1) of
                (err2, info, gb2) \<Rightarrow>
                  if err2 \<noteq> 0 then (err2, 0, gb2) else (0, info - 1, gb2)))"

section \<open>Scaling lists\<close>

text \<open>
  The loop of \<^verbatim>\<open>scaling_list\<close> over \<open>j\<close>. The list being filled and the
  \<^verbatim>\<open>usedefaultscalingmatrix\<close> cell are passed and returned.
\<close>

function scaling_list_loop ::
  "getbit \<Rightarrow> unsigned list \<Rightarrow> nat \<Rightarrow> bool \<Rightarrow> unsigned \<Rightarrow> unsigned \<Rightarrow> nat
     \<Rightarrow> int \<times> unsigned list \<times> bool \<times> getbit" where
  "scaling_list_loop gb sl sizeofscalinglist usedefault lastscale nextscale j =
     (if j < sizeofscalinglist then
        (if nextscale \<noteq> 0 then
           (case get_ue_golomb gb of (err, delta_scale, gb') \<Rightarrow>
              if err \<noteq> 0 then (err, sl, usedefault, gb')
              else
                let nextscale' = (lastscale + delta_scale + 256) mod 256;
                    usedefault' = (j = 0 \<and> nextscale' = 0);
                    v = (if nextscale' = 0 then lastscale else nextscale')
                in scaling_list_loop gb' (sl[j := v]) sizeofscalinglist usedefault' v
                     nextscale' (j + 1))
         else
           let v = (if nextscale = 0 then lastscale else nextscale)
           in scaling_list_loop gb (sl[j := v]) sizeofscalinglist usedefault v
                nextscale (j + 1))
      else (0, sl, usedefault, gb))"
  by pat_completeness auto
termination
  by (relation "measure (\<lambda>(gb, sl, n, u, l, nx, j). n - j)") auto

declare scaling_list_loop.simps [simp del]

definition scaling_list ::
  "getbit \<Rightarrow> unsigned list \<Rightarrow> nat \<Rightarrow> bool \<Rightarrow> int \<times> unsigned list \<times> bool \<times> getbit" where
  "scaling_list gb sl sizeofscalinglist usedefault =
     scaling_list_loop gb sl sizeofscalinglist usedefault 8 8 0"

text \<open>
  The loop of \<^verbatim>\<open>decode_scaling_matrix\<close> over \<open>i\<close>, with its three local arrays.
\<close>

function decode_scaling_matrix_loop ::
  "getbit \<Rightarrow> unsigned \<Rightarrow> unsigned list \<Rightarrow> unsigned list \<Rightarrow> bool list \<Rightarrow> nat
     \<Rightarrow> int \<times> getbit" where
  "decode_scaling_matrix_loop gb chroma_format_idc sl4 sl8 ud i =
     (if i < (if chroma_format_idc \<noteq> 3 then 8 else 12) then
        (if getbit_get_left gb < 1 then (EBADMSG, gb)
         else
           (case get_bit gb of (seq_scaling_list_present_flag, gb1) \<Rightarrow>
              if seq_scaling_list_present_flag \<noteq> 0 then
                (if i < 6 then
                   (case scaling_list gb1 sl4 16 (ud ! i) of (err, sl4', u, gb2) \<Rightarrow>
                      if err \<noteq> 0 then (err, gb2)
                      else decode_scaling_matrix_loop gb2 chroma_format_idc sl4' sl8
                             (ud[i := u]) (i + 1))
                 else
                   (case scaling_list gb1 sl8 64 (ud ! i) of (err, sl8', u, gb2) \<Rightarrow>
                      if err \<noteq> 0 then (err, gb2)
                      else decode_scaling_matrix_loop gb2 chroma_format_idc sl4 sl8'
                             (ud[i := u]) (i + 1)))
              else decode_scaling_matrix_loop gb1 chroma_format_idc sl4 sl8 ud (i + 1)))
      else (0, gb))"
  by pat_completeness auto
termination
  by (relation "measure (\<lambda>(gb, c, sl4, sl8, ud, i). 12 - i)") (auto split: if_splits)

declare decode_scaling_matrix_loop.simps [simp del]

text \<open>
  The local arrays are uninitialised in C and every cell is written before it is read
  back for a result; they start as zeros here.
\<close>

definition decode_scaling_matrix :: "getbit \<Rightarrow> unsigned \<Rightarrow> int \<times> getbit" where
  "decode_scaling_matrix gb chroma_format_idc =
     decode_scaling_matrix_loop gb chroma_format_idc (replicate 16 0) (replicate 64 0)
       (replicate 12 False) 0"

section \<open>The sequence parameter set\<close>

record h264_sps =
  profile_idc :: uint8
  level_idc :: uint8
  seq_parameter_set_id :: uint8
  chroma_format_idc :: uint8
  log2_max_frame_num :: unsigned
  pic_order_cnt_type :: unsigned
  max_num_ref_frames :: unsigned
  pic_width_in_mbs :: unsigned
  pic_height_in_map_units :: unsigned
  frame_cropping_flg :: bool
  frame_crop_left_offset :: unsigned
  frame_crop_right_offset :: unsigned
  frame_crop_top_offset :: unsigned
  frame_crop_bottom_offset :: unsigned
  width_cropped :: unsigned
  height_cropped :: unsigned
  width :: unsigned
  height :: unsigned

text \<open>The struct after \<^verbatim>\<open>memset(sps, 0, sizeof(*sps))\<close>.\<close>

definition sps_zero :: h264_sps where
  "sps_zero =
     \<lparr>profile_idc = 0, level_idc = 0, seq_parameter_set_id = 0, chroma_format_idc = 0,
      log2_max_frame_num = 0, pic_order_cnt_type = 0, max_num_ref_frames = 0,
      pic_width_in_mbs = 0, pic_height_in_map_units = 0, frame_cropping_flg = False,
      frame_crop_left_offset = 0, frame_crop_right_offset = 0,
      frame_crop_top_offset = 0, frame_crop_bottom_offset = 0,
      width_cropped = 0, height_cropped = 0, width = 0, height = 0\<rparr>"

section \<open>\<^verbatim>\<open>h264_sps_decode\<close>\<close>

text \<open>
  The body of \<^verbatim>\<open>h264_sps_decode\<close> is one forward pass with early returns. It is
  split here at the source's own paragraphs; each part returns the status, what it has
  stored so far and the cursor, and the next part runs only on status 0.
\<close>

text \<open>The test on \<^verbatim>\<open>profile_idc\<close> that opens the high-profile branch.\<close>

definition is_high_profile :: "uint8 \<Rightarrow> bool" where
  "is_high_profile p \<longleftrightarrow>
     p = 100 \<or> p = 110 \<or> p = 122 \<or> p = 244 \<or> p = 44 \<or> p = 83 \<or>
     p = 86 \<or> p = 118 \<or> p = 128 \<or> p = 138 \<or> p = 144"

text \<open>
  The high-profile branch: \<^verbatim>\<open>chroma_format_idc\<close>, the colour-plane flag, the two
  discarded bit depths, the bypass flag and the optional scaling matrix. It returns
  the status, \<^verbatim>\<open>chroma_format_idc\<close> and the cursor.
\<close>

definition sps_high_profile :: "getbit \<Rightarrow> int \<times> unsigned \<times> getbit" where
  "sps_high_profile gb =
     (case get_ue_golomb gb of (err, chroma, gb1) \<Rightarrow>
        if err \<noteq> 0 then (err, 1, gb1)
        else if chroma > 3 then (EBADMSG, chroma, gb1)
        else if chroma = 3 \<and> getbit_get_left gb1 < 1 then (EBADMSG, chroma, gb1)
        else
          let gb2 = (if chroma = 3 then snd (get_bit gb1) else gb1)
          in (case get_ue_golomb gb2 of (e1, bit_depth_luma, gb3) \<Rightarrow>
              case get_ue_golomb gb3 of (e2, bit_depth_chroma, gb4) \<Rightarrow>
                let err = e1 OR e2
                in if err \<noteq> 0 then (err, chroma, gb4)
                   else if getbit_get_left gb4 < 2 then (EBADMSG, chroma, gb4)
                   else
                     (case get_bit gb4 of (qpprime, gb5) \<Rightarrow>
                      case get_bit gb5 of (seq_scaling_matrix_present_flag, gb6) \<Rightarrow>
                        if seq_scaling_matrix_present_flag \<noteq> 0 then
                          (case decode_scaling_matrix gb6 chroma of
                             (err, gb7) \<Rightarrow> (err, chroma, gb7))
                        else (0, chroma, gb6))))"

text \<open>
  From \<^verbatim>\<open>memset\<close> to the end of the high-profile branch. The result carries the
  locals \<^verbatim>\<open>profile_idc\<close>, \<^verbatim>\<open>seq_parameter_set_id\<close> and
  \<^verbatim>\<open>chroma_format_idc\<close>. The caller has checked that there are three bytes.
\<close>

definition sps_header ::
  "uint8 list \<Rightarrow> int \<times> h264_sps \<times> uint8 \<times> unsigned \<times> unsigned \<times> getbit" where
  "sps_header b =
     (let sps = sps_zero;
          profile = b ! 0;
          sps = sps\<lparr>level_idc := b ! 2\<rparr>;
          len = (word_of_nat (length b) :: 64 word);
          gb = getbit_init (drop 3 b) (unat ((len - 3) * 8))
      in case get_ue_golomb gb of (err, sid, gb1) \<Rightarrow>
           if err \<noteq> 0 then (err, sps, profile, sid, 1, gb1)
           else if sid \<ge> MAX_SPS_COUNT then (EBADMSG, sps, profile, sid, 1, gb1)
           else if is_high_profile profile then
             (case sps_high_profile gb1 of (err, chroma, gb2) \<Rightarrow>
                (err, sps, profile, sid, chroma, gb2))
           else (0, sps, profile, sid, 1, gb1))"

text \<open>\<^verbatim>\<open>log2_max_frame_num\<close> and \<^verbatim>\<open>pic_order_cnt_type\<close>.\<close>

definition sps_frame_order :: "h264_sps \<Rightarrow> getbit \<Rightarrow> int \<times> h264_sps \<times> getbit" where
  "sps_frame_order sps gb =
     (case get_ue_golomb gb of (err, v, gb1) \<Rightarrow>
        if err \<noteq> 0 then (err, sps, gb1)
        else
          let sps1 = sps\<lparr>log2_max_frame_num := v + 4\<rparr>
          in if log2_max_frame_num sps1 > MAX_LOG2_MAX_FRAME_NUM then (EBADMSG, sps1, gb1)
             else
               (case get_ue_golomb gb1 of (err, poc, gb2) \<Rightarrow>
                  if err \<noteq> 0 then (err, sps1, gb2)
                  else
                    let sps2 = sps1\<lparr>pic_order_cnt_type := poc\<rparr>
                    in if pic_order_cnt_type sps2 = 0 then
                         (case get_ue_golomb gb2 of (err, lsb, gb3) \<Rightarrow> (err, sps2, gb3))
                       else if pic_order_cnt_type sps2 = 2 then (0, sps2, gb2)
                       else (ENOTSUP, sps2, gb2)))"

text \<open>
  From \<^verbatim>\<open>max_num_ref_frames\<close> to the pixel size of the macroblock grid. The result
  carries the local \<^verbatim>\<open>frame_mbs_only_flag\<close>.
\<close>

definition sps_geometry ::
  "h264_sps \<Rightarrow> getbit \<Rightarrow> int \<times> h264_sps \<times> unsigned \<times> getbit" where
  "sps_geometry sps gb =
     (case get_ue_golomb gb of (err, refs, gb1) \<Rightarrow>
        if err \<noteq> 0 then (err, sps, 0, gb1)
        else
          let sps1 = sps\<lparr>max_num_ref_frames := refs\<rparr>
          in if getbit_get_left gb1 < 1 then (EBADMSG, sps1, 0, gb1)
             else
               (case get_bit gb1 of (gaps, gb2) \<Rightarrow>
                case get_ue_golomb gb2 of (e1, mb_w_m1, gb3) \<Rightarrow>
                case get_ue_golomb gb3 of (e2, mb_h_m1, gb4) \<Rightarrow>
                  let err = e1 OR e2
                  in if err \<noteq> 0 then (err, sps1, 0, gb4)
                     else if getbit_get_left gb4 < 1 then (EBADMSG, sps1, 0, gb4)
                     else
                       (case get_bit gb4 of (frame_mbs_only_flag, gb5) \<Rightarrow>
                          let sps2 = sps1\<lparr>pic_width_in_mbs := mb_w_m1 + 1\<rparr>;
                              sps3 = sps2\<lparr>pic_height_in_map_units := mb_h_m1 + 1\<rparr>;
                              sps4 = sps3\<lparr>pic_height_in_map_units :=
                                       pic_height_in_map_units sps3
                                         * (2 - frame_mbs_only_flag)\<rparr>
                          in if pic_width_in_mbs sps4 \<ge> MAX_MACROBLOCKS
                                \<or> pic_height_in_map_units sps4 \<ge> MAX_MACROBLOCKS
                             then (EBADMSG, sps4, frame_mbs_only_flag, gb5)
                             else if frame_mbs_only_flag = 0 \<and> getbit_get_left gb5 < 1
                             then (EBADMSG, sps4, frame_mbs_only_flag, gb5)
                             else
                               let gb6 = (if frame_mbs_only_flag = 0
                                          then snd (get_bit gb5) else gb5)
                               in if getbit_get_left gb6 < 1
                                  then (EBADMSG, sps4, frame_mbs_only_flag, gb6)
                                  else
                                    let gb7 = snd (get_bit gb6)
                                    in if getbit_get_left gb7 < 1
                                       then (EBADMSG, sps4, frame_mbs_only_flag, gb7)
                                       else
                                         (case get_bit gb7 of (crop, gb8) \<Rightarrow>
                                            let sps5 = sps4\<lparr>frame_cropping_flg := (crop \<noteq> 0)\<rparr>;
                                                sps6 = sps5\<lparr>width := MACROBLOCK_SIZE
                                                         * pic_width_in_mbs sps5\<rparr>;
                                                sps7 = sps6\<lparr>height := MACROBLOCK_SIZE
                                                         * pic_height_in_map_units sps6\<rparr>
                                            in (0, sps7, frame_mbs_only_flag, gb8)))))"

text \<open>The cropping rectangle, read and validated when \<^verbatim>\<open>frame_cropping_flg\<close> is set.\<close>

definition sps_crop ::
  "h264_sps \<Rightarrow> getbit \<Rightarrow> unsigned \<Rightarrow> unsigned \<Rightarrow> int \<times> h264_sps \<times> getbit" where
  "sps_crop sps gb chroma frame_mbs_only_flag =
     (if frame_cropping_flg sps then
        let vsub = (if chroma = 1 then 1 else 0) :: unsigned;
            hsub = (if chroma = 1 \<or> chroma = 2 then 1 else 0) :: unsigned;
            sx = push_bit (unat hsub) (1 :: unsigned);
            sy = push_bit (unat vsub) (2 - frame_mbs_only_flag)
        in case get_ue_golomb gb of (e1, crop_left, gb1) \<Rightarrow>
           case get_ue_golomb gb1 of (e2, crop_right, gb2) \<Rightarrow>
           case get_ue_golomb gb2 of (e3, crop_top, gb3) \<Rightarrow>
           case get_ue_golomb gb3 of (e4, crop_bottom, gb4) \<Rightarrow>
             let err = ((e1 OR e2) OR e3) OR e4
             in if err \<noteq> 0 then (err, sps, gb4)
                else if (crop_left + crop_right) * sx \<ge> width sps
                        \<or> (crop_top + crop_bottom) * sy \<ge> height sps
                then (EBADMSG, sps, gb4)
                else
                  (0, sps\<lparr>frame_crop_left_offset := sx * crop_left,
                           frame_crop_right_offset := sx * crop_right,
                           frame_crop_top_offset := sy * crop_top,
                           frame_crop_bottom_offset := sy * crop_bottom\<rparr>, gb4)
      else (0, sps, gb))"

text \<open>The stores after the \<^verbatim>\<open>/* success */\<close> comment.\<close>

definition sps_success :: "h264_sps \<Rightarrow> uint8 \<Rightarrow> unsigned \<Rightarrow> unsigned \<Rightarrow> h264_sps" where
  "sps_success sps profile sid chroma =
     sps\<lparr>profile_idc := profile,
         seq_parameter_set_id := ucast sid,
         chroma_format_idc := ucast chroma,
         width_cropped := MACROBLOCK_SIZE * pic_width_in_mbs sps
                            - frame_crop_left_offset sps - frame_crop_right_offset sps,
         height_cropped := MACROBLOCK_SIZE * pic_height_in_map_units sps
                            - frame_crop_top_offset sps - frame_crop_bottom_offset sps\<rparr>"

text \<open>
  Everything after the argument check, for a buffer of at least three bytes: the
  status, the contents of \<^verbatim>\<open>*sps\<close> at the return and the local cursor as it is then.
\<close>

definition sps_parse :: "uint8 list \<Rightarrow> int \<times> h264_sps \<times> getbit" where
  "sps_parse b =
     (case sps_header b of (err, sps, profile, sid, chroma, gb) \<Rightarrow>
        if err \<noteq> 0 then (err, sps, gb)
        else
          (case sps_frame_order sps gb of (err, sps1, gb1) \<Rightarrow>
             if err \<noteq> 0 then (err, sps1, gb1)
             else
               (case sps_geometry sps1 gb1 of (err, sps2, frame_mbs_only_flag, gb2) \<Rightarrow>
                  if err \<noteq> 0 then (err, sps2, gb2)
                  else
                    (case sps_crop sps2 gb2 chroma frame_mbs_only_flag of
                       (err, sps3, gb3) \<Rightarrow>
                         if err \<noteq> 0 then (err, sps3, gb3)
                         else (0, sps_success sps3 profile sid chroma, gb3)))))"

text \<open>
  \<^verbatim>\<open>h264_sps_decode(sps, buf, len)\<close>: a null pointer is \<open>None\<close>, and \<open>len\<close> is the
  length of the buffer. The result is the status and the contents of \<^verbatim>\<open>*sps\<close> after
  the call.
\<close>

definition h264_sps_decode ::
  "h264_sps option \<Rightarrow> uint8 list option \<Rightarrow> int \<times> h264_sps option" where
  "h264_sps_decode sps buf =
     (case (sps, buf) of
        (Some s, Some b) \<Rightarrow>
          if length b < 3 then (EINVAL, sps)
          else (case sps_parse b of (err, s', gb) \<Rightarrow> (err, Some s'))
      | _ \<Rightarrow> (EINVAL, sps))"

section \<open>Notions used in the statements\<close>

text \<open>
  A cursor is well formed when no read has left the buffer, the position is within the
  bit length, and the bit length is within the bytes of the buffer.
\<close>

definition gb_wf :: "getbit \<Rightarrow> bool" where
  "gb_wf gb \<longleftrightarrow>
     \<not> gb_oob gb \<and> gb_pos gb \<le> gb_end gb \<and> gb_end gb \<le> 8 * length (gb_buf gb)"

text \<open>
  \<open>gb_le a b\<close>: \<open>b\<close> is a well-formed cursor over the same buffer and bit length as
  \<open>a\<close>, at the same position or further on.
\<close>

definition gb_le :: "getbit \<Rightarrow> getbit \<Rightarrow> bool" where
  "gb_le a b \<longleftrightarrow>
     gb_buf b = gb_buf a \<and> gb_end b = gb_end a \<and> gb_pos a \<le> gb_pos b \<and> gb_wf b"

text \<open>The two statuses that the cursor-level operations return.\<close>

definition err_ok :: "int \<Rightarrow> bool" where
  "err_ok e \<longleftrightarrow> e = 0 \<or> e = EBADMSG"

text \<open>
  The stores that \<^verbatim>\<open>h264_sps_decode\<close> makes only on its success path, or only after
  the crop validation, have not been made: the struct still holds the zeros of
  \<^verbatim>\<open>memset\<close> in those fields.
\<close>

definition stores_pending :: "h264_sps \<Rightarrow> bool" where
  "stores_pending s \<longleftrightarrow>
     profile_idc s = 0 \<and> seq_parameter_set_id s = 0 \<and> chroma_format_idc s = 0
     \<and> width_cropped s = 0 \<and> height_cropped s = 0
     \<and> frame_crop_left_offset s = 0 \<and> frame_crop_right_offset s = 0
     \<and> frame_crop_top_offset s = 0 \<and> frame_crop_bottom_offset s = 0"

text \<open>
  The cropping check in the words of the specification: the horizontal and vertical
  crop units \<open>sx = 1 << hsub\<close> and \<open>sy = (2 - frame_mbs_only_flag) << vsub\<close>, with
  \<open>hsub = 1\<close> for chroma formats 1 and 2 and \<open>vsub = 1\<close> for chroma format 1, and the
  four Exponential-Golomb values read in the order left, right, top, bottom, with the
  combined status of the four reads.
\<close>

definition crop_sx :: "unsigned \<Rightarrow> unsigned" where
  "crop_sx chroma = push_bit (if chroma = 1 \<or> chroma = 2 then 1 else 0) 1"

definition crop_sy :: "unsigned \<Rightarrow> unsigned \<Rightarrow> unsigned" where
  "crop_sy chroma frame_mbs_only_flag =
     push_bit (if chroma = 1 then 1 else 0) (2 - frame_mbs_only_flag)"

definition crop_values :: "getbit \<Rightarrow> int \<times> unsigned \<times> unsigned \<times> unsigned \<times> unsigned" where
  "crop_values gb =
     (case get_ue_golomb gb of (e1, crop_left, gb1) \<Rightarrow>
      case get_ue_golomb gb1 of (e2, crop_right, gb2) \<Rightarrow>
      case get_ue_golomb gb2 of (e3, crop_top, gb3) \<Rightarrow>
      case get_ue_golomb gb3 of (e4, crop_bottom, gb4) \<Rightarrow>
        (((e1 OR e2) OR e3) OR e4, crop_left, crop_right, crop_top, crop_bottom))"

text \<open>
  The bit of the cursor's buffer at bit index \<open>k\<close>, most significant bit of each byte
  first, as \<^verbatim>\<open>get_bit\<close> extracts it; and the next \<open>n\<close> bits from the position on.
\<close>

definition gb_bit :: "getbit \<Rightarrow> nat \<Rightarrow> bool" where
  "gb_bit gb k \<longleftrightarrow> bit (gb_buf gb ! (k div 8)) (7 - k mod 8)"

definition gb_bits :: "getbit \<Rightarrow> nat \<Rightarrow> bool list" where
  "gb_bits gb n = map (gb_bit gb) [gb_pos gb ..< gb_pos gb + n]"

text \<open>The number that a bit string denotes, most significant bit first.\<close>

fun bits_nat :: "bool list \<Rightarrow> nat" where
  "bits_nat [] = 0"
| "bits_nat (b # bs) = of_bool b * 2 ^ length bs + bits_nat bs"

text \<open>
  The Exponential-Golomb code of the specification: for \<open>v\<close>, the number of leading
  zeros is the position of the highest set bit of \<open>v + 1\<close>; the code is that many
  zeros, a one, and \<open>v + 1\<close> without its highest bit in as many bits, so that
  \<open>v = 2 ^ zeros + suffix - 1\<close>.
\<close>

fun ue_prefix_len :: "nat \<Rightarrow> nat" where
  "ue_prefix_len m = (if m < 2 then 0 else Suc (ue_prefix_len (m div 2)))"

declare ue_prefix_len.simps [simp del]

definition ue_encode :: "nat \<Rightarrow> bool list" where
  "ue_encode v =
     (let zeros = ue_prefix_len (v + 1);
          suffix = v + 1 - 2 ^ zeros
      in replicate zeros False @ True # map (bit suffix) (rev [0..<zeros]))"

text \<open>
  What a call that fails after the argument check leaves in \<^verbatim>\<open>*sps\<close>, field by field,
  in the order of the stores of the source. Everything is 0 but \<open>level_idc\<close> and the
  fields stored before the failing step:
  \<^item> \<open>log2_max_frame_num\<close>, once its value was read (it is stored before its range
    test);
  \<^item> \<open>pic_order_cnt_type\<close>, once \<open>log2_max_frame_num\<close> passed its test and the type
    was read (it is stored before the test for types 0 and 2);
  \<^item> \<open>max_num_ref_frames\<close>, once read;
  \<^item> the two macroblock counts, once the gaps flag, both counts and
    \<^verbatim>\<open>frame_mbs_only_flag\<close> were read (they are stored before their range test);
  \<^item> \<open>frame_cropping_flg\<close>, \<open>width\<close> and \<open>height\<close>, once the cropping flag was read:
    a call that still fails then fails in the cropping step, with the flag set.
  The cursors between the parts and the statuses of the parts are those of the parts.
\<close>

definition failed_output :: "uint8 list \<Rightarrow> h264_sps" where
  "failed_output b =
     (let s0 = sps_zero\<lparr>level_idc := b ! 2\<rparr>;
          hdr = sps_header b;
          g0 = snd (snd (snd (snd (snd hdr))));
          (e1, v, g0a) = get_ue_golomb g0;
          (e2, poc, g0b) = get_ue_golomb g0a;
          fo = sps_frame_order s0 g0;
          g1 = snd (snd fo);
          (e3, refs, g1a) = get_ue_golomb g1;
          g1b = snd (get_bit g1a);
          (e4, mb_w_m1, g1c) = get_ue_golomb g1b;
          (e5, mb_h_m1, g1d) = get_ue_golomb g1c;
          frame_mbs_only_flag = fst (get_bit g1d);
          geo = sps_geometry (fst (snd fo)) g1;
          log2_read = (fst hdr = 0 \<and> e1 = 0);
          poc_read = (log2_read \<and> v + 4 \<le> MAX_LOG2_MAX_FRAME_NUM \<and> e2 = 0);
          refs_read = (fst hdr = 0 \<and> fst fo = 0 \<and> e3 = 0);
          dims_read = (refs_read \<and> 1 \<le> getbit_get_left g1a \<and> e4 OR e5 = 0
                         \<and> 1 \<le> getbit_get_left g1d);
          crop_reached = (fst hdr = 0 \<and> fst fo = 0 \<and> fst geo = 0);
          w = mb_w_m1 + 1;
          h = (mb_h_m1 + 1) * (2 - frame_mbs_only_flag)
      in s0\<lparr>log2_max_frame_num := (if log2_read then v + 4 else 0),
            pic_order_cnt_type := (if poc_read then poc else 0),
            max_num_ref_frames := (if refs_read then refs else 0),
            pic_width_in_mbs := (if dims_read then w else 0),
            pic_height_in_map_units := (if dims_read then h else 0),
            frame_cropping_flg := crop_reached,
            width := (if crop_reached then MACROBLOCK_SIZE * w else 0),
            height := (if crop_reached then MACROBLOCK_SIZE * h else 0)\<rparr>)"

section \<open>The cursor stays inside the buffer\<close>

lemma EBADMSG_nz [simp]: "EBADMSG \<noteq> 0" "0 \<noteq> EBADMSG"
  by (simp_all add: EBADMSG_def)

lemma err_ok_simps [simp]: "err_ok 0" "err_ok EBADMSG"
  by (simp_all add: err_ok_def)

lemma err_ok_or [simp]: "err_ok a \<Longrightarrow> err_ok b \<Longrightarrow> err_ok (a OR b)"
  by (auto simp: err_ok_def)

lemma gb_le_refl: "gb_wf gb \<Longrightarrow> gb_le gb gb"
  by (simp add: gb_le_def)

lemma gb_le_wf: "gb_le a b \<Longrightarrow> gb_wf b"
  by (simp add: gb_le_def)

lemma nat_drop_bit_3: "drop_bit 3 (n::nat) = n div 8"
  by (simp add: drop_bit_eq_div)

lemma nat_and_7: "(n::nat) AND 7 = n mod 8"
proof -
  have "n AND mask 3 = n mod 2 ^ 3"
    by (simp only: take_bit_eq_mask [symmetric] take_bit_eq_mod)
  then show ?thesis by (simp add: mask_eq_exp_minus_1)
qed

text \<open>
  Every operation on the cursor, applied to a well-formed cursor that is at or beyond
  \<open>a\<close>, leaves such a cursor; and its status is 0 or \<open>EBADMSG\<close>.
\<close>

lemma get_bit_le [simp]: "gb_le a gb \<Longrightarrow> gb_le a (snd (get_bit gb))"
  by (auto simp: gb_wf_def gb_le_def get_bit_def Let_def nat_drop_bit_3)

lemma golomb_zeros_le [simp]: "gb_le a gb \<Longrightarrow> gb_le a (snd (snd (golomb_zeros gb z)))"
  by (induction gb z rule: golomb_zeros.induct) (subst golomb_zeros.simps, simp)

lemma golomb_zeros_err [simp]: "err_ok (fst (golomb_zeros gb z))"
  by (induction gb z rule: golomb_zeros.induct) (subst golomb_zeros.simps, simp)

lemma golomb_info_le [simp]: "gb_le a gb \<Longrightarrow> gb_le a (snd (snd (golomb_info gb i info)))"
  by (induction gb i info rule: golomb_info.induct) (subst golomb_info.simps, simp)

lemma golomb_info_err [simp]: "err_ok (fst (golomb_info gb i info))"
  by (induction gb i info rule: golomb_info.induct) (subst golomb_info.simps, simp)

lemma get_ue_golomb_le [simp]: "gb_le a gb \<Longrightarrow> gb_le a (snd (snd (get_ue_golomb gb)))"
  by (simp add: get_ue_golomb_def case_prod_beta)

lemma get_ue_golomb_err [simp]: "err_ok (fst (get_ue_golomb gb))"
  by (simp add: get_ue_golomb_def case_prod_beta)

lemma scaling_list_loop_le [simp]:
  "gb_le a gb \<Longrightarrow> gb_le a (snd (snd (snd (scaling_list_loop gb sl n u l nx j))))"
proof (induction "n - j" arbitrary: gb sl u l nx j)
  case 0
  then show ?case
    by (subst scaling_list_loop.simps) simp
next
  case (Suc k)
  from Suc.hyps(2) have "k = n - Suc j" by simp
  note IH = Suc.hyps(1) [OF this]
  from Suc.prems show ?case
    by (subst scaling_list_loop.simps) (simp add: case_prod_beta Let_def IH)
qed

lemma scaling_list_loop_err [simp]: "err_ok (fst (scaling_list_loop gb sl n u l nx j))"
proof (induction "n - j" arbitrary: gb sl u l nx j)
  case 0
  then show ?case
    by (subst scaling_list_loop.simps) simp
next
  case (Suc k)
  from Suc.hyps(2) have "k = n - Suc j" by simp
  note IH = Suc.hyps(1) [OF this]
  show ?case
    by (subst scaling_list_loop.simps) (simp add: case_prod_beta Let_def IH)
qed

lemma decode_scaling_matrix_loop_le [simp]:
  "gb_le a gb \<Longrightarrow> gb_le a (snd (decode_scaling_matrix_loop gb c sl4 sl8 ud i))"
proof (induction "12 - i" arbitrary: gb c sl4 sl8 ud i)
  case 0
  then show ?case
    by (subst decode_scaling_matrix_loop.simps) simp
next
  case (Suc k)
  from Suc.hyps(2) have "k = 12 - Suc i" by simp
  note IH = Suc.hyps(1) [OF this]
  from Suc.prems show ?case
    by (subst decode_scaling_matrix_loop.simps)
       (simp add: case_prod_beta Let_def scaling_list_def IH)
qed

lemma decode_scaling_matrix_loop_err [simp]:
  "err_ok (fst (decode_scaling_matrix_loop gb c sl4 sl8 ud i))"
proof (induction "12 - i" arbitrary: gb c sl4 sl8 ud i)
  case 0
  then show ?case
    by (subst decode_scaling_matrix_loop.simps) simp
next
  case (Suc k)
  from Suc.hyps(2) have "k = 12 - Suc i" by simp
  note IH = Suc.hyps(1) [OF this]
  show ?case
    by (subst decode_scaling_matrix_loop.simps)
       (simp add: case_prod_beta Let_def scaling_list_def IH)
qed

lemma sps_high_profile_le [simp]:
  "gb_le a gb \<Longrightarrow> gb_le a (snd (snd (sps_high_profile gb)))"
  by (simp add: sps_high_profile_def case_prod_beta Let_def decode_scaling_matrix_def)

lemma sps_high_profile_err [simp]: "err_ok (fst (sps_high_profile gb))"
  by (simp add: sps_high_profile_def case_prod_beta Let_def decode_scaling_matrix_def)

lemma sps_header_le:
  "gb_le a (getbit_init (drop 3 b) (unat ((word_of_nat (length b) - 3) * 8 :: 64 word))) \<Longrightarrow>
   gb_le a (snd (snd (snd (snd (snd (sps_header b))))))"
  by (simp add: sps_header_def case_prod_beta Let_def)

lemma sps_header_err [simp]: "err_ok (fst (sps_header b))"
  by (simp add: sps_header_def case_prod_beta Let_def)

lemma sps_frame_order_le [simp]:
  "gb_le a gb \<Longrightarrow> gb_le a (snd (snd (sps_frame_order sps gb)))"
  by (simp add: sps_frame_order_def case_prod_beta Let_def)

lemma sps_frame_order_err:
  "err_ok (fst (sps_frame_order sps gb)) \<or> fst (sps_frame_order sps gb) = ENOTSUP"
  by (simp add: sps_frame_order_def case_prod_beta Let_def)

lemma sps_geometry_le [simp]:
  "gb_le a gb \<Longrightarrow> gb_le a (snd (snd (snd (sps_geometry sps gb))))"
  by (simp add: sps_geometry_def case_prod_beta Let_def)

lemma sps_geometry_err [simp]: "err_ok (fst (sps_geometry sps gb))"
  by (simp add: sps_geometry_def case_prod_beta Let_def)

lemma sps_crop_le [simp]:
  "gb_le a gb \<Longrightarrow> gb_le a (snd (snd (sps_crop sps gb c f)))"
  by (simp add: sps_crop_def case_prod_beta Let_def)

lemma sps_crop_err [simp]: "err_ok (fst (sps_crop sps gb c f))"
  by (simp add: sps_crop_def case_prod_beta Let_def)

text \<open>The bit length handed to the cursor never exceeds the bits behind byte 3.\<close>

lemma bit_length_bound:
  assumes "3 \<le> n"
  shows "unat ((word_of_nat n - 3) * 8 :: 64 word) \<le> 8 * (n - 3)"
proof -
  have "(word_of_nat n - 3 :: 64 word) = word_of_nat (n - 3)"
    using assms by simp
  then have "(word_of_nat n - 3) * 8 = (word_of_nat ((n - 3) * 8) :: 64 word)"
    by simp
  then have "unat ((word_of_nat n - 3) * 8 :: 64 word) = ((n - 3) * 8) mod 2 ^ 64"
    by (simp only: unat_of_nat) simp
  also have "\<dots> \<le> (n - 3) * 8"
    by (rule mod_less_eq_dividend)
  finally show ?thesis by simp
qed

lemma init_wf:
  "3 \<le> length b \<Longrightarrow>
   gb_wf (getbit_init (drop 3 b) (unat ((word_of_nat (length b) - 3) * 8 :: 64 word)))"
  using bit_length_bound [of "length b"] by (simp add: gb_wf_def getbit_init_def)

lemma sps_parse_le:
  "3 \<le> length b \<Longrightarrow>
   gb_le (getbit_init (drop 3 b) (unat ((word_of_nat (length b) - 3) * 8 :: 64 word)))
     (snd (snd (sps_parse b)))"
  using sps_header_le [OF gb_le_refl [OF init_wf], of b]
  by (simp add: sps_parse_def case_prod_beta)

lemma sps_parse_err:
  "fst (sps_parse b) = 0 \<or> fst (sps_parse b) = EBADMSG \<or> fst (sps_parse b) = ENOTSUP"
  using sps_header_err [of b]
    sps_frame_order_err [of "fst (snd (sps_header b))" "snd (snd (snd (snd (snd (sps_header b)))))"]
    sps_geometry_err sps_crop_err
  unfolding sps_parse_def case_prod_beta err_ok_def
  by (smt (verit) fst_conv)

section \<open>The end-to-end scenario, memory safety and the constraint byte\<close>

text \<open>
  C1. Decoding the five bytes \<^verbatim>\<open>42 00 1E DD E0\<close> returns 0 and stores exactly the
  record of the end-to-end scenario: profile 66, level 30, one macroblock each way,
  16 by 16 pixels, no cropping. The result does not depend on what the output struct
  held before the call.
\<close>

theorem decode_end_to_end_scenario:
  "h264_sps_decode (Some s) (Some [0x42, 0x00, 0x1E, 0xDD, 0xE0]) =
     (0, Some \<lparr>profile_idc = 66, level_idc = 30, seq_parameter_set_id = 0,
                chroma_format_idc = 1, log2_max_frame_num = 4, pic_order_cnt_type = 2,
                max_num_ref_frames = 0, pic_width_in_mbs = 1,
                pic_height_in_map_units = 1, frame_cropping_flg = False,
                frame_crop_left_offset = 0, frame_crop_right_offset = 0,
                frame_crop_top_offset = 0, frame_crop_bottom_offset = 0,
                width_cropped = 16, height_cropped = 16, width = 16, height = 16\<rparr>)"
  by code_simp

text \<open>
  C2. For every buffer, \<^verbatim>\<open>h264_sps_decode\<close> returns: a buffer shorter than three
  bytes is refused with \<open>EINVAL\<close> before any byte is read; otherwise bytes 0 and 2 are
  read, the cursor runs over the bytes from index 3 on, no read through the cursor
  has left those bytes (\<open>gb_oob\<close> is still false at the return), the bit position is
  within the bit length, which is within the buffer, and the status is 0 for a record
  or one of the two error codes. The position only grows (\<open>gb_le\<close>), so it was within
  the bit length all along. Every function of the model is total, so the call
  terminates.
\<close>

theorem decode_never_reads_out_of_bounds:
  "(length b < 3 \<longrightarrow> h264_sps_decode (Some s) (Some b) = (EINVAL, Some s)) \<and>
   (3 \<le> length b \<longrightarrow>
      h264_sps_decode (Some s) (Some b) = (fst (sps_parse b), Some (fst (snd (sps_parse b))))
      \<and> \<not> gb_oob (snd (snd (sps_parse b)))
      \<and> gb_buf (snd (snd (sps_parse b))) = drop 3 b
      \<and> gb_pos (snd (snd (sps_parse b))) \<le> gb_end (snd (snd (sps_parse b)))
      \<and> gb_end (snd (snd (sps_parse b))) \<le> 8 * (length b - 3)
      \<and> (fst (sps_parse b) = 0 \<or> fst (sps_parse b) = EBADMSG
           \<or> fst (sps_parse b) = ENOTSUP))"
proof (intro conjI impI)
  assume "length b < 3"
  then show "h264_sps_decode (Some s) (Some b) = (EINVAL, Some s)"
    by (simp add: h264_sps_decode_def)
next
  assume len: "3 \<le> length b"
  let ?g = "snd (snd (sps_parse b))"
  from len show "h264_sps_decode (Some s) (Some b)
      = (fst (sps_parse b), Some (fst (snd (sps_parse b))))"
    by (simp add: h264_sps_decode_def case_prod_beta)
  from sps_parse_le [OF len]
  have buf: "gb_buf ?g = drop 3 b" and wf: "gb_wf ?g"
    by (simp_all add: gb_le_def getbit_init_def)
  from buf show "gb_buf ?g = drop 3 b" .
  from wf show "\<not> gb_oob ?g" and "gb_pos ?g \<le> gb_end ?g"
    by (simp_all add: gb_wf_def)
  from wf buf show "gb_end ?g \<le> 8 * (length b - 3)"
    by (simp add: gb_wf_def)
  show "fst (sps_parse b) = 0 \<or> fst (sps_parse b) = EBADMSG \<or> fst (sps_parse b) = ENOTSUP"
    by (rule sps_parse_err)
qed

theorem decode_never_reads_out_of_bounds_witness:
  "3 \<le> length [0x42, 0x00, 0x1E, 0xDD :: uint8]
   \<and> h264_sps_decode (Some sps_zero) (Some [0x42, 0x00, 0x1E, 0xDD])
       = (EBADMSG, Some (fst (snd (sps_parse [0x42, 0x00, 0x1E, 0xDD]))))
   \<and> \<not> gb_oob (snd (snd (sps_parse [0x42, 0x00, 0x1E, 0xDD])))
   \<and> gb_pos (snd (snd (sps_parse [0x42, 0x00, 0x1E, 0xDD]))) = 8
   \<and> gb_end (snd (snd (sps_parse [0x42, 0x00, 0x1E, 0xDD]))) = 8"
proof -
  have e: "fst (sps_parse [0x42, 0x00, 0x1E, 0xDD]) = EBADMSG"
    by code_simp
  have p: "gb_pos (snd (snd (sps_parse [0x42, 0x00, 0x1E, 0xDD]))) = 8"
    by code_simp
  have q: "gb_end (snd (snd (sps_parse [0x42, 0x00, 0x1E, 0xDD]))) = 8"
    by code_simp
  from decode_never_reads_out_of_bounds [of "[0x42, 0x00, 0x1E, 0xDD]" sps_zero] e p q
  show ?thesis by simp
qed

text \<open>
  C6. Every record of a successful decode should have at least one macroblock column
  and one map-unit row. The decoder breaks this: the height count is formed as
  \<open>(mb_h_m1 + 1) * (2 - frame_mbs_only_flag)\<close> in 32 bits before the test against
  \<open>MAX_MACROBLOCKS\<close>. With \<open>mb_h_m1 = 0x7FFFFFFF\<close> (31 zero bits, a one, 31 zero
  bits) and \<open>frame_mbs_only_flag = 0\<close> the product wraps to 0, passes the test, and
  the call returns 0 with a height of 0.
\<close>

theorem decode_zero_height:
  "h264_sps_decode (Some s)
     (Some [0x42, 0x00, 0x1E, 0xDD, 0x00, 0x00, 0x00, 0x01, 0x00, 0x00, 0x00, 0x00, 0x40])
   = (0, Some \<lparr>profile_idc = 66, level_idc = 30, seq_parameter_set_id = 0,
                chroma_format_idc = 1, log2_max_frame_num = 4, pic_order_cnt_type = 2,
                max_num_ref_frames = 0, pic_width_in_mbs = 1,
                pic_height_in_map_units = 0, frame_cropping_flg = False,
                frame_crop_left_offset = 0, frame_crop_right_offset = 0,
                frame_crop_top_offset = 0, frame_crop_bottom_offset = 0,
                width_cropped = 16, height_cropped = 0, width = 16, height = 0\<rparr>)"
  by code_simp




text \<open>
  C10. Two buffers of the same length, at least 3, that agree on every byte except
  the one at index 1 give the same status and the same output struct: the decoder
  reads bytes 0 and 2 and runs the cursor over the bytes from index 3 on.
\<close>

lemma sps_header_cong:
  assumes "length b1 = length b2" and "b1 ! 0 = b2 ! 0" and "b1 ! 2 = b2 ! 2"
    and "drop 3 b1 = drop 3 b2"
  shows "sps_header b1 = sps_header b2"
  using assms by (simp add: sps_header_def)

text \<open>C10, the theorem.\<close>

theorem decode_ignores_byte_1:
  assumes "length b1 = length b2" and "3 \<le> length b1"
    and "\<forall>i < length b1. i \<noteq> 1 \<longrightarrow> b1 ! i = b2 ! i"
  shows "h264_sps_decode sps (Some b1) = h264_sps_decode sps (Some b2)"
proof -
  have same: "b1 ! i = b2 ! i" if "i < length b1" and "i \<noteq> 1" for i
    using assms(3) that by blast
  from assms(2) have "0 < length b1" and "2 < length b1"
    by linarith+
  then have "b1 ! 0 = b2 ! 0" and "b1 ! 2 = b2 ! 2"
    by (simp_all only: same)
  moreover from assms(1) have "drop 3 b1 = drop 3 b2"
    by (intro nth_equalityI) (simp_all add: same)
  ultimately have "sps_header b1 = sps_header b2"
    by (rule sps_header_cong [OF assms(1)])
  then have "sps_parse b1 = sps_parse b2"
    by (simp add: sps_parse_def)
  with assms(1) show ?thesis
    by (simp add: h264_sps_decode_def split: option.splits)
qed

theorem decode_ignores_byte_1_witness:
  "length [0x42, 0x00, 0x1E, 0xDD, 0xE0 :: uint8] = length [0x42, 0xC0, 0x1E, 0xDD, 0xE0 :: uint8]
   \<and> 3 \<le> length [0x42, 0x00, 0x1E, 0xDD, 0xE0 :: uint8]
   \<and> h264_sps_decode (Some sps_zero) (Some [0x42, 0x00, 0x1E, 0xDD, 0xE0])
       = h264_sps_decode (Some sps_zero) (Some [0x42, 0xC0, 0x1E, 0xDD, 0xE0])"
proof -
  have h: "\<forall>i < length [0x42, 0x00, 0x1E, 0xDD, 0xE0 :: uint8]. i \<noteq> 1 \<longrightarrow>
          [0x42, 0x00, 0x1E, 0xDD, 0xE0 :: uint8] ! i = [0x42, 0xC0, 0x1E, 0xDD, 0xE0] ! i"
    by (simp add: nth_Cons' less_Suc_eq)
  from decode_ignores_byte_1 [of "[0x42, 0x00, 0x1E, 0xDD, 0xE0]" "[0x42, 0xC0, 0x1E, 0xDD, 0xE0]",
      OF _ _ h, of "Some sps_zero"]
  show ?thesis by simp
qed

section \<open>What a failed call leaves in the output struct\<close>

lemma errno_distinct [simp]:
  "EINVAL \<noteq> 0" "EINVAL \<noteq> EBADMSG" "EINVAL \<noteq> ENOTSUP" "ENOTSUP \<noteq> 0" "ENOTSUP \<noteq> EBADMSG"
  "0 \<noteq> EINVAL" "EBADMSG \<noteq> EINVAL" "ENOTSUP \<noteq> EINVAL" "0 \<noteq> ENOTSUP" "EBADMSG \<noteq> ENOTSUP"
  by (simp_all add: EINVAL_def EBADMSG_def ENOTSUP_def)

lemma sps_header_sps: "fst (snd (sps_header b)) = sps_zero\<lparr>level_idc := b ! 2\<rparr>"
  by (simp add: sps_header_def case_prod_beta Let_def)

lemma sps_frame_order_pending:
  "stores_pending (fst (snd (sps_frame_order sps gb))) = stores_pending sps"
  "level_idc (fst (snd (sps_frame_order sps gb))) = level_idc sps"
  by (simp_all add: sps_frame_order_def case_prod_beta Let_def stores_pending_def)

lemma sps_geometry_pending:
  "stores_pending (fst (snd (sps_geometry sps gb))) = stores_pending sps"
  "level_idc (fst (snd (sps_geometry sps gb))) = level_idc sps"
  by (simp_all add: sps_geometry_def case_prod_beta Let_def stores_pending_def)

lemma sps_crop_failed: "fst (sps_crop sps gb c f) = 0 \<or> fst (snd (sps_crop sps gb c f)) = sps"
  by (simp add: sps_crop_def case_prod_beta Let_def)

lemma sps_frame_order_fields:
  "log2_max_frame_num (fst (snd (sps_frame_order sps gb))) =
     (if fst (get_ue_golomb gb) = 0 then fst (snd (get_ue_golomb gb)) + 4
      else log2_max_frame_num sps)"
  "pic_order_cnt_type (fst (snd (sps_frame_order sps gb))) =
     (if fst (get_ue_golomb gb) = 0
         \<and> fst (snd (get_ue_golomb gb)) + 4 \<le> MAX_LOG2_MAX_FRAME_NUM
         \<and> fst (get_ue_golomb (snd (snd (get_ue_golomb gb)))) = 0
      then fst (snd (get_ue_golomb (snd (snd (get_ue_golomb gb)))))
      else pic_order_cnt_type sps)"
  "max_num_ref_frames (fst (snd (sps_frame_order sps gb))) = max_num_ref_frames sps"
  "pic_width_in_mbs (fst (snd (sps_frame_order sps gb))) = pic_width_in_mbs sps"
  "pic_height_in_map_units (fst (snd (sps_frame_order sps gb))) = pic_height_in_map_units sps"
  "frame_cropping_flg (fst (snd (sps_frame_order sps gb))) = frame_cropping_flg sps"
  "width (fst (snd (sps_frame_order sps gb))) = width sps"
  "height (fst (snd (sps_frame_order sps gb))) = height sps"
  by (auto simp: sps_frame_order_def case_prod_beta Let_def)

lemma sps_geometry_fields:
  "max_num_ref_frames (fst (snd (sps_geometry sps gb))) =
     (if fst (get_ue_golomb gb) = 0 then fst (snd (get_ue_golomb gb))
      else max_num_ref_frames sps)"
  "pic_width_in_mbs (fst (snd (sps_geometry sps gb))) =
     (let (e3, refs, g1a) = get_ue_golomb gb;
          g1b = snd (get_bit g1a);
          (e4, mb_w_m1, g1c) = get_ue_golomb g1b;
          (e5, mb_h_m1, g1d) = get_ue_golomb g1c
      in if e3 = 0 \<and> 1 \<le> getbit_get_left g1a \<and> e4 OR e5 = 0 \<and> 1 \<le> getbit_get_left g1d
         then mb_w_m1 + 1 else pic_width_in_mbs sps)"
  "pic_height_in_map_units (fst (snd (sps_geometry sps gb))) =
     (let (e3, refs, g1a) = get_ue_golomb gb;
          g1b = snd (get_bit g1a);
          (e4, mb_w_m1, g1c) = get_ue_golomb g1b;
          (e5, mb_h_m1, g1d) = get_ue_golomb g1c
      in if e3 = 0 \<and> 1 \<le> getbit_get_left g1a \<and> e4 OR e5 = 0 \<and> 1 \<le> getbit_get_left g1d
         then (mb_h_m1 + 1) * (2 - fst (get_bit g1d)) else pic_height_in_map_units sps)"
  "width (fst (snd (sps_geometry sps gb))) =
     (let (e3, refs, g1a) = get_ue_golomb gb;
          g1b = snd (get_bit g1a);
          (e4, mb_w_m1, g1c) = get_ue_golomb g1b
      in if fst (sps_geometry sps gb) = 0 then MACROBLOCK_SIZE * (mb_w_m1 + 1) else width sps)"
  "height (fst (snd (sps_geometry sps gb))) =
     (let (e3, refs, g1a) = get_ue_golomb gb;
          g1b = snd (get_bit g1a);
          (e4, mb_w_m1, g1c) = get_ue_golomb g1b;
          (e5, mb_h_m1, g1d) = get_ue_golomb g1c
      in if fst (sps_geometry sps gb) = 0
         then MACROBLOCK_SIZE * ((mb_h_m1 + 1) * (2 - fst (get_bit g1d))) else height sps)"
  "log2_max_frame_num (fst (snd (sps_geometry sps gb))) = log2_max_frame_num sps"
  "pic_order_cnt_type (fst (snd (sps_geometry sps gb))) = pic_order_cnt_type sps"
  by (simp_all add: sps_geometry_def case_prod_beta Let_def)

lemma sps_geometry_failed_flag:
  "fst (sps_geometry sps gb) = 0 \<or>
   frame_cropping_flg (fst (snd (sps_geometry sps gb))) = frame_cropping_flg sps"
  by (simp add: sps_geometry_def case_prod_beta Let_def)

lemma sps_crop_failed_flag:
  "fst (sps_crop sps gb c f) = 0 \<or> frame_cropping_flg sps"
  by (simp add: sps_crop_def)

lemma sps_zero_fields:
  "profile_idc sps_zero = 0" "level_idc sps_zero = 0" "seq_parameter_set_id sps_zero = 0"
  "chroma_format_idc sps_zero = 0" "log2_max_frame_num sps_zero = 0"
  "pic_order_cnt_type sps_zero = 0" "max_num_ref_frames sps_zero = 0"
  "pic_width_in_mbs sps_zero = 0" "pic_height_in_map_units sps_zero = 0"
  "\<not> frame_cropping_flg sps_zero" "frame_crop_left_offset sps_zero = 0"
  "frame_crop_right_offset sps_zero = 0" "frame_crop_top_offset sps_zero = 0"
  "frame_crop_bottom_offset sps_zero = 0" "width_cropped sps_zero = 0"
  "height_cropped sps_zero = 0" "width sps_zero = 0" "height sps_zero = 0"
  by (simp_all add: sps_zero_def)

lemma stores_pending_fields:
  "stores_pending s \<Longrightarrow> profile_idc s = 0"
  "stores_pending s \<Longrightarrow> seq_parameter_set_id s = 0"
  "stores_pending s \<Longrightarrow> chroma_format_idc s = 0"
  "stores_pending s \<Longrightarrow> width_cropped s = 0"
  "stores_pending s \<Longrightarrow> height_cropped s = 0"
  "stores_pending s \<Longrightarrow> frame_crop_left_offset s = 0"
  "stores_pending s \<Longrightarrow> frame_crop_right_offset s = 0"
  "stores_pending s \<Longrightarrow> frame_crop_top_offset s = 0"
  "stores_pending s \<Longrightarrow> frame_crop_bottom_offset s = 0"
  by (simp_all add: stores_pending_def)

lemma sps_parse_failed_output:
  assumes "fst (sps_parse b) \<noteq> 0"
  shows "fst (snd (sps_parse b)) = failed_output b"
proof -
  let ?s0 = "sps_zero\<lparr>level_idc := b ! 2\<rparr>"
  let ?h = "sps_header b"
  let ?g0 = "snd (snd (snd (snd (snd ?h))))"
  let ?f = "sps_frame_order ?s0 ?g0"
  let ?g = "sps_geometry (fst (snd ?f)) (snd (snd ?f))"
  let ?c = "sps_crop (fst (snd ?g)) (snd (snd (snd ?g))) (fst (snd (snd (snd (snd ?h)))))
              (fst (snd (snd ?g)))"
  note hs = sps_header_sps [of b]
  have p0: "stores_pending ?s0"
    by (simp add: stores_pending_def sps_zero_def)
  then have pf: "stores_pending (fst (snd ?f))" and lf: "level_idc (fst (snd ?f)) = b ! 2"
    by (simp_all add: sps_frame_order_pending)
  then have pg: "stores_pending (fst (snd ?g))" and lg: "level_idc (fst (snd ?g)) = b ! 2"
    by (simp_all add: sps_geometry_pending)
  note zf = stores_pending_fields [OF pf] and zg = stores_pending_fields [OF pg]
  note z0 = sps_zero_fields
  consider (H) "fst ?h \<noteq> 0"
    | (F) "fst ?h = 0" "fst ?f \<noteq> 0"
    | (G) "fst ?h = 0" "fst ?f = 0" "fst ?g \<noteq> 0"
    | (C) "fst ?h = 0" "fst ?f = 0" "fst ?g = 0"
    by blast
  then show ?thesis
  proof cases
    case H
    then have "fst (snd (sps_parse b)) = ?s0"
      by (simp add: sps_parse_def case_prod_beta hs)
    moreover from H have "failed_output b = ?s0"
      by (simp add: failed_output_def case_prod_beta Let_def sps_zero_def)
    ultimately show ?thesis by simp
  next
    case F
    then have "fst (snd (sps_parse b)) = fst (snd ?f)"
      by (simp add: sps_parse_def case_prod_beta hs)
    also have "\<dots> = failed_output b"
      by (rule h264_sps.equality)
         (simp_all add: failed_output_def case_prod_beta Let_def F zf lf
            sps_frame_order_fields z0)
    finally show ?thesis .
  next
    case G
    from G(3) have flag: "\<not> frame_cropping_flg (fst (snd ?g))"
      using sps_geometry_failed_flag [of "fst (snd ?f)" "snd (snd ?f)"]
      by (simp add: sps_frame_order_fields z0)
    from G have "fst (snd (sps_parse b)) = fst (snd ?g)"
      by (simp add: sps_parse_def case_prod_beta hs)
    also have "\<dots> = failed_output b"
      by (rule h264_sps.equality)
         (simp_all add: failed_output_def case_prod_beta Let_def G zg lg flag
            sps_geometry_fields sps_frame_order_fields z0)
    finally show ?thesis .
  next
    case C
    with assms have c: "fst ?c \<noteq> 0"
      by (simp add: sps_parse_def case_prod_beta hs split: if_split_asm)
    with C have "fst (snd (sps_parse b)) = fst (snd ?c)"
      by (simp add: sps_parse_def case_prod_beta hs)
    also from c have "\<dots> = fst (snd ?g)"
      using sps_crop_failed [of "fst (snd ?g)" "snd (snd (snd ?g))"
          "fst (snd (snd (snd (snd ?h))))" "fst (snd (snd ?g))"]
      by simp
    also have "\<dots> = failed_output b"
    proof -
      from c have flag: "frame_cropping_flg (fst (snd ?g))"
        using sps_crop_failed_flag [of "fst (snd ?g)" "snd (snd (snd ?g))"
            "fst (snd (snd (snd (snd ?h))))" "fst (snd (snd ?g))"]
        by simp
      show ?thesis
        by (rule h264_sps.equality)
           (simp_all add: failed_output_def case_prod_beta Let_def C zg lg flag
              sps_geometry_fields sps_frame_order_fields z0)
    qed
    finally show ?thesis .
  qed
qed

lemma failed_output_zero_fields:
  "level_idc (failed_output b) = b ! 2" "stores_pending (failed_output b)"
  by (simp_all add: failed_output_def case_prod_beta Let_def sps_zero_def stores_pending_def)

text \<open>
  C3. A failed call should leave the caller's struct as it was. It does not: the
  struct is cleared and filled as the fields are read, before the first check that can
  fail. The buffer of C1 cut to four bytes fails with \<open>EBADMSG\<close> and leaves a struct
  that holds the level and the two fields read so far.
\<close>

theorem failed_decode_counterexample:
  "h264_sps_decode (Some sps_zero) (Some [0x42, 0x00, 0x1E, 0xDD])
     = (EBADMSG, Some (sps_zero\<lparr>level_idc := 30, log2_max_frame_num := 4,
                                 pic_order_cnt_type := 2\<rparr>))
   \<and> sps_zero\<lparr>level_idc := 30, log2_max_frame_num := 4, pic_order_cnt_type := 2\<rparr> \<noteq> sps_zero"
proof -
  have "h264_sps_decode (Some sps_zero) (Some [0x42, 0x00, 0x1E, 0xDD])
     = (EBADMSG, Some (sps_zero\<lparr>level_idc := 30, log2_max_frame_num := 4,
                                 pic_order_cnt_type := 2\<rparr>))"
    by code_simp
  moreover have "level_idc (sps_zero\<lparr>level_idc := 30, log2_max_frame_num := 4,
      pic_order_cnt_type := 2\<rparr>) \<noteq> level_idc sps_zero"
    by (simp add: sps_zero_def)
  ultimately show ?thesis by metis
qed

text \<open>
  C3, as amended. A call that returns \<open>EINVAL\<close> leaves the struct untouched. A call
  that returns another error has overwritten it, whatever it held before: the struct
  is exactly \<open>failed_output\<close> of the buffer, that is, the zeros of \<^verbatim>\<open>memset\<close>,
  \<open>level_idc\<close> from byte 2 and the fields stored before the failing step. The fields
  that are stored only at the end (\<open>profile_idc\<close>, \<open>seq_parameter_set_id\<close>,
  \<open>chroma_format_idc\<close>, the two cropped sizes) and the four crop offsets are 0.
\<close>

theorem failed_decode_output:
  "(fst (h264_sps_decode sps buf) = EINVAL \<longrightarrow> snd (h264_sps_decode sps buf) = sps) \<and>
   (fst (h264_sps_decode sps buf) \<noteq> 0 \<and> fst (h264_sps_decode sps buf) \<noteq> EINVAL \<longrightarrow>
      (\<exists>s' b. buf = Some b \<and> 3 \<le> length b \<and> snd (h264_sps_decode sps buf) = Some s'
         \<and> s' = failed_output b
         \<and> (\<forall>s0. h264_sps_decode (Some s0) buf = h264_sps_decode sps buf)
         \<and> level_idc s' = b ! 2
         \<and> profile_idc s' = 0 \<and> seq_parameter_set_id s' = 0 \<and> chroma_format_idc s' = 0
         \<and> width_cropped s' = 0 \<and> height_cropped s' = 0
         \<and> frame_crop_left_offset s' = 0 \<and> frame_crop_right_offset s' = 0
         \<and> frame_crop_top_offset s' = 0 \<and> frame_crop_bottom_offset s' = 0))"
proof (cases "\<exists>s b. sps = Some s \<and> buf = Some b \<and> 3 \<le> length b")
  case False
  then have "h264_sps_decode sps buf = (EINVAL, sps)"
    by (auto simp: h264_sps_decode_def split: option.splits)
  then show ?thesis by simp
next
  case True
  then obtain s b where sb: "sps = Some s" "buf = Some b" "3 \<le> length b"
    by blast
  then have r: "h264_sps_decode (Some s0) buf
      = (fst (sps_parse b), Some (fst (snd (sps_parse b))))" for s0
    by (simp add: h264_sps_decode_def case_prod_beta)
  from sps_parse_err [of b] have ne: "fst (sps_parse b) \<noteq> EINVAL"
    by auto
  show ?thesis
  proof (cases "fst (sps_parse b) = 0")
    case True
    with r [of s] sb ne show ?thesis by simp
  next
    case False
    note out = sps_parse_failed_output [OF False]
    from failed_output_zero_fields [of b]
    have "level_idc (failed_output b) = b ! 2" and "stores_pending (failed_output b)"
      by simp_all
    with r sb ne out show ?thesis
      by (simp add: stores_pending_def)
  qed
qed

theorem failed_decode_output_witness:
  "h264_sps_decode (Some sps_zero) (Some [0x42, 0x00, 0x1E, 0xDD])
     = (EBADMSG, Some (failed_output [0x42, 0x00, 0x1E, 0xDD]))
   \<and> failed_output [0x42, 0x00, 0x1E, 0xDD]
     = sps_zero\<lparr>level_idc := 30, log2_max_frame_num := 4, pic_order_cnt_type := 2\<rparr>
   \<and> h264_sps_decode (Some sps_zero) (Some [0x42, 0x00, 0x1E, 0xD0])
     = (ENOTSUP, Some (failed_output [0x42, 0x00, 0x1E, 0xD0]))
   \<and> failed_output [0x42, 0x00, 0x1E, 0xD0]
     = sps_zero\<lparr>level_idc := 30, log2_max_frame_num := 4, pic_order_cnt_type := 1\<rparr>
   \<and> h264_sps_decode (Some sps_zero) (Some [0x42, 0x00, 0x1E, 0xDD, 0xF1, 0x3C])
     = (EBADMSG, Some (failed_output [0x42, 0x00, 0x1E, 0xDD, 0xF1, 0x3C]))
   \<and> failed_output [0x42, 0x00, 0x1E, 0xDD, 0xF1, 0x3C]
     = sps_zero\<lparr>level_idc := 30, log2_max_frame_num := 4, pic_order_cnt_type := 2,
                pic_width_in_mbs := 1, pic_height_in_map_units := 1,
                frame_cropping_flg := True, width := 16, height := 16\<rparr>"
proof -
  have e: "fst (h264_sps_decode (Some sps_zero) (Some [0x42, 0x00, 0x1E, 0xDD])) = EBADMSG"
    "fst (h264_sps_decode (Some sps_zero) (Some [0x42, 0x00, 0x1E, 0xD0])) = ENOTSUP"
    "fst (h264_sps_decode (Some sps_zero) (Some [0x42, 0x00, 0x1E, 0xDD, 0xF1, 0x3C])) = EBADMSG"
    by code_simp+
  have f: "failed_output [0x42, 0x00, 0x1E, 0xDD]
     = sps_zero\<lparr>level_idc := 30, log2_max_frame_num := 4, pic_order_cnt_type := 2\<rparr>"
    "failed_output [0x42, 0x00, 0x1E, 0xD0]
     = sps_zero\<lparr>level_idc := 30, log2_max_frame_num := 4, pic_order_cnt_type := 1\<rparr>"
    "failed_output [0x42, 0x00, 0x1E, 0xDD, 0xF1, 0x3C]
     = sps_zero\<lparr>level_idc := 30, log2_max_frame_num := 4, pic_order_cnt_type := 2,
                pic_width_in_mbs := 1, pic_height_in_map_units := 1,
                frame_cropping_flg := True, width := 16, height := 16\<rparr>"
    by code_simp+
  have d1: "h264_sps_decode (Some sps_zero) (Some [0x42, 0x00, 0x1E, 0xDD])
     = (EBADMSG, Some (failed_output [0x42, 0x00, 0x1E, 0xDD]))"
    using failed_decode_output [of "Some sps_zero" "Some [0x42, 0x00, 0x1E, 0xDD]"] e(1)
    by (auto simp: prod_eq_iff)
  have d2: "h264_sps_decode (Some sps_zero) (Some [0x42, 0x00, 0x1E, 0xD0])
     = (ENOTSUP, Some (failed_output [0x42, 0x00, 0x1E, 0xD0]))"
    using failed_decode_output [of "Some sps_zero" "Some [0x42, 0x00, 0x1E, 0xD0]"] e(2)
    by (auto simp: prod_eq_iff)
  have d3: "h264_sps_decode (Some sps_zero) (Some [0x42, 0x00, 0x1E, 0xDD, 0xF1, 0x3C])
     = (EBADMSG, Some (failed_output [0x42, 0x00, 0x1E, 0xDD, 0xF1, 0x3C]))"
    using failed_decode_output [of "Some sps_zero" "Some [0x42, 0x00, 0x1E, 0xDD, 0xF1, 0x3C]"] e(3)
    by (auto simp: prod_eq_iff)
  from d1 d2 d3 f show ?thesis
    by (simp only: simp_thms)
qed

section \<open>Cropped sizes\<close>

lemma sps_geometry_dims:
  "fst (sps_geometry sps gb) \<noteq> 0 \<or>
   (width (fst (snd (sps_geometry sps gb)))
      = MACROBLOCK_SIZE * pic_width_in_mbs (fst (snd (sps_geometry sps gb)))
    \<and> height (fst (snd (sps_geometry sps gb)))
      = MACROBLOCK_SIZE * pic_height_in_map_units (fst (snd (sps_geometry sps gb))))"
  by (simp add: sps_geometry_def case_prod_beta Let_def)

lemma crop_sum: "\<not> w \<le> (a + b) * x \<Longrightarrow> x * a + x * b < (w::unsigned)"
  by (simp add: algebra_simps not_le)

lemma sps_crop_frame:
  "width (fst (snd (sps_crop sps gb c f))) = width sps"
  "height (fst (snd (sps_crop sps gb c f))) = height sps"
  "pic_width_in_mbs (fst (snd (sps_crop sps gb c f))) = pic_width_in_mbs sps"
  "pic_height_in_map_units (fst (snd (sps_crop sps gb c f))) = pic_height_in_map_units sps"
  "frame_cropping_flg (fst (snd (sps_crop sps gb c f))) = frame_cropping_flg sps"
  by (simp_all add: sps_crop_def case_prod_beta Let_def)

lemma sps_crop_no_flag:
  "\<not> frame_cropping_flg sps \<Longrightarrow> fst (snd (sps_crop sps gb c f)) = sps"
  by (simp add: sps_crop_def)

lemma sps_crop_checked:
  "frame_cropping_flg sps \<Longrightarrow>
   fst (sps_crop sps gb c f) \<noteq> 0 \<or>
   (frame_crop_left_offset (fst (snd (sps_crop sps gb c f)))
      + frame_crop_right_offset (fst (snd (sps_crop sps gb c f))) < width sps
    \<and> frame_crop_top_offset (fst (snd (sps_crop sps gb c f)))
      + frame_crop_bottom_offset (fst (snd (sps_crop sps gb c f))) < height sps)"
  by (simp add: sps_crop_def case_prod_beta Let_def crop_sum)

lemma word_sub_two_le: "a + b < w \<Longrightarrow> w - a - b \<le> (w::unsigned)"
proof -
  assume "a + b < w"
  then have "w - (a + b) \<le> w"
    by (intro word_sub_le) simp
  then show ?thesis by (simp add: diff_diff_eq)
qed

lemma sps_success_frame:
  "width (sps_success s p i c) = width s" "height (sps_success s p i c) = height s"
  "frame_cropping_flg (sps_success s p i c) = frame_cropping_flg s"
  "frame_crop_left_offset (sps_success s p i c) = frame_crop_left_offset s"
  "frame_crop_right_offset (sps_success s p i c) = frame_crop_right_offset s"
  "frame_crop_top_offset (sps_success s p i c) = frame_crop_top_offset s"
  "frame_crop_bottom_offset (sps_success s p i c) = frame_crop_bottom_offset s"
  "width_cropped (sps_success s p i c) = MACROBLOCK_SIZE * pic_width_in_mbs s
      - frame_crop_left_offset s - frame_crop_right_offset s"
  "height_cropped (sps_success s p i c) = MACROBLOCK_SIZE * pic_height_in_map_units s
      - frame_crop_top_offset s - frame_crop_bottom_offset s"
  by (simp_all add: sps_success_def)

lemma sps_parse_cropped:
  assumes "fst (sps_parse b) = 0"
  shows "width_cropped (fst (snd (sps_parse b)))
           = width (fst (snd (sps_parse b))) - frame_crop_left_offset (fst (snd (sps_parse b)))
               - frame_crop_right_offset (fst (snd (sps_parse b)))"
    and "height_cropped (fst (snd (sps_parse b)))
           = height (fst (snd (sps_parse b))) - frame_crop_top_offset (fst (snd (sps_parse b)))
               - frame_crop_bottom_offset (fst (snd (sps_parse b)))"
    and "if frame_cropping_flg (fst (snd (sps_parse b)))
         then frame_crop_left_offset (fst (snd (sps_parse b)))
                + frame_crop_right_offset (fst (snd (sps_parse b))) < width (fst (snd (sps_parse b)))
            \<and> frame_crop_top_offset (fst (snd (sps_parse b)))
                + frame_crop_bottom_offset (fst (snd (sps_parse b))) < height (fst (snd (sps_parse b)))
         else frame_crop_left_offset (fst (snd (sps_parse b))) = 0
            \<and> frame_crop_right_offset (fst (snd (sps_parse b))) = 0
            \<and> frame_crop_top_offset (fst (snd (sps_parse b))) = 0
            \<and> frame_crop_bottom_offset (fst (snd (sps_parse b))) = 0"
proof -
  let ?h = "sps_header b"
  let ?f = "sps_frame_order (fst (snd ?h)) (snd (snd (snd (snd (snd ?h)))))"
  let ?g = "sps_geometry (fst (snd ?f)) (snd (snd ?f))"
  let ?c = "sps_crop (fst (snd ?g)) (snd (snd (snd ?g))) (fst (snd (snd (snd (snd ?h)))))
              (fst (snd (snd ?g)))"
  let ?s2 = "fst (snd ?g)"
  let ?s3 = "fst (snd ?c)"
  have h0: "fst ?h = 0"
  proof (rule ccontr)
    assume "fst ?h \<noteq> 0"
    then have "fst (sps_parse b) = fst ?h"
      by (simp add: sps_parse_def case_prod_beta)
    with assms \<open>fst ?h \<noteq> 0\<close> show False by simp
  qed
  have f0: "fst ?f = 0"
  proof (rule ccontr)
    assume "fst ?f \<noteq> 0"
    with h0 have "fst (sps_parse b) = fst ?f"
      by (simp add: sps_parse_def case_prod_beta)
    with assms \<open>fst ?f \<noteq> 0\<close> show False by simp
  qed
  have g0: "fst ?g = 0"
  proof (rule ccontr)
    assume "fst ?g \<noteq> 0"
    with h0 f0 have "fst (sps_parse b) = fst ?g"
      by (simp add: sps_parse_def case_prod_beta)
    with assms \<open>fst ?g \<noteq> 0\<close> show False by simp
  qed
  have c0: "fst ?c = 0"
  proof (rule ccontr)
    assume "fst ?c \<noteq> 0"
    with h0 f0 g0 have "fst (sps_parse b) = fst ?c"
      by (simp add: sps_parse_def case_prod_beta)
    with assms \<open>fst ?c \<noteq> 0\<close> show False by simp
  qed
  from h0 f0 g0 c0
  have ok: "fst ?g = 0 \<and> fst ?c = 0
      \<and> fst (snd (sps_parse b))
          = sps_success ?s3 (fst (snd (snd ?h))) (fst (snd (snd (snd ?h))))
              (fst (snd (snd (snd (snd ?h)))))"
    by (simp add: sps_parse_def case_prod_beta)
  have "stores_pending (sps_zero\<lparr>level_idc := b ! 2\<rparr>)"
    by (simp add: stores_pending_def sps_zero_def)
  then have pend: "stores_pending ?s2"
    by (simp add: sps_geometry_pending sps_frame_order_pending sps_header_sps)
  from ok sps_geometry_dims [of "fst (snd ?f)" "snd (snd ?f)"]
  have dims: "width ?s2 = MACROBLOCK_SIZE * pic_width_in_mbs ?s2"
    "height ?s2 = MACROBLOCK_SIZE * pic_height_in_map_units ?s2"
    by simp_all
  from ok dims show "width_cropped (fst (snd (sps_parse b)))
           = width (fst (snd (sps_parse b))) - frame_crop_left_offset (fst (snd (sps_parse b)))
               - frame_crop_right_offset (fst (snd (sps_parse b)))"
    by (simp add: sps_success_frame sps_crop_frame)
  from ok dims show "height_cropped (fst (snd (sps_parse b)))
           = height (fst (snd (sps_parse b))) - frame_crop_top_offset (fst (snd (sps_parse b)))
               - frame_crop_bottom_offset (fst (snd (sps_parse b)))"
    by (simp add: sps_success_frame sps_crop_frame)
  show "if frame_cropping_flg (fst (snd (sps_parse b)))
         then frame_crop_left_offset (fst (snd (sps_parse b)))
                + frame_crop_right_offset (fst (snd (sps_parse b))) < width (fst (snd (sps_parse b)))
            \<and> frame_crop_top_offset (fst (snd (sps_parse b)))
                + frame_crop_bottom_offset (fst (snd (sps_parse b))) < height (fst (snd (sps_parse b)))
         else frame_crop_left_offset (fst (snd (sps_parse b))) = 0
            \<and> frame_crop_right_offset (fst (snd (sps_parse b))) = 0
            \<and> frame_crop_top_offset (fst (snd (sps_parse b))) = 0
            \<and> frame_crop_bottom_offset (fst (snd (sps_parse b))) = 0"
  proof (cases "frame_cropping_flg ?s2")
    case True
    with ok sps_crop_checked [OF True, of "snd (snd (snd ?g))" "fst (snd (snd (snd (snd ?h))))"
        "fst (snd (snd ?g))"]
    show ?thesis
      by (simp add: sps_success_frame sps_crop_frame)
  next
    case False
    with ok pend sps_crop_no_flag [OF False, of "snd (snd (snd ?g))" "fst (snd (snd (snd (snd ?h))))"
        "fst (snd (snd ?g))"]
    show ?thesis
      by (simp add: sps_success_frame stores_pending_def)
  qed
qed

text \<open>
  C7. Every record of a successful decode has \<open>width_cropped \<le> width\<close> and
  \<open>height_cropped \<le> height\<close>. The cropped sizes are the sizes minus the pixel
  offsets; with the flag set the offsets are the validated ones, whose sums are below
  the sizes, and with the flag clear all four offsets are 0. Sums and differences are
  those of the 32-bit fields.
\<close>

theorem cropped_within_frame:
  assumes "h264_sps_decode sps buf = (0, Some s)"
  shows "width_cropped s \<le> width s \<and> height_cropped s \<le> height s
     \<and> width_cropped s = width s - frame_crop_left_offset s - frame_crop_right_offset s
     \<and> height_cropped s = height s - frame_crop_top_offset s - frame_crop_bottom_offset s
     \<and> (if frame_cropping_flg s
         then frame_crop_left_offset s + frame_crop_right_offset s < width s
            \<and> frame_crop_top_offset s + frame_crop_bottom_offset s < height s
         else frame_crop_left_offset s = 0 \<and> frame_crop_right_offset s = 0
            \<and> frame_crop_top_offset s = 0 \<and> frame_crop_bottom_offset s = 0)"
proof -
  from assms obtain b where b: "fst (sps_parse b) = 0" "s = fst (snd (sps_parse b))"
    by (auto simp: h264_sps_decode_def case_prod_beta split: option.splits if_splits)
  note c = sps_parse_cropped [OF b(1), folded b(2)]
  have "width_cropped s \<le> width s"
  proof (cases "frame_cropping_flg s")
    case True
    with c(3) have "frame_crop_left_offset s + frame_crop_right_offset s < width s" by simp
    then show ?thesis unfolding c(1) by (rule word_sub_two_le)
  next
    case False
    with c(3) show ?thesis unfolding c(1) by simp
  qed
  moreover have "height_cropped s \<le> height s"
  proof (cases "frame_cropping_flg s")
    case True
    with c(3) have "frame_crop_top_offset s + frame_crop_bottom_offset s < height s" by simp
    then show ?thesis unfolding c(2) by (rule word_sub_two_le)
  next
    case False
    with c(3) show ?thesis unfolding c(2) by simp
  qed
  ultimately show ?thesis using c by simp
qed


theorem cropped_within_frame_witness:
  "h264_sps_decode (Some sps_zero) (Some [0x42, 0x00, 0x1E, 0xDD, 0xFA, 0xC0])
     = (0, Some \<lparr>profile_idc = 66, level_idc = 30, seq_parameter_set_id = 0,
                chroma_format_idc = 1, log2_max_frame_num = 4, pic_order_cnt_type = 2,
                max_num_ref_frames = 0, pic_width_in_mbs = 1,
                pic_height_in_map_units = 1, frame_cropping_flg = True,
                frame_crop_left_offset = 0, frame_crop_right_offset = 2,
                frame_crop_top_offset = 0, frame_crop_bottom_offset = 0,
                width_cropped = 14, height_cropped = 16, width = 16, height = 16\<rparr>)
   \<and> (14 :: unsigned) \<le> 16 \<and> (0 + 2 :: unsigned) < 16"
proof -
  have e: "h264_sps_decode (Some sps_zero) (Some [0x42, 0x00, 0x1E, 0xDD, 0xFA, 0xC0])
     = (0, Some \<lparr>profile_idc = 66, level_idc = 30, seq_parameter_set_id = 0,
                chroma_format_idc = 1, log2_max_frame_num = 4, pic_order_cnt_type = 2,
                max_num_ref_frames = 0, pic_width_in_mbs = 1,
                pic_height_in_map_units = 1, frame_cropping_flg = True,
                frame_crop_left_offset = 0, frame_crop_right_offset = 2,
                frame_crop_top_offset = 0, frame_crop_bottom_offset = 0,
                width_cropped = 14, height_cropped = 16, width = 16, height = 16\<rparr>)"
    by code_simp
  from cropped_within_frame [OF e] e show ?thesis by simp
qed

section \<open>The crop validation\<close>

lemma crop_values_err: "fst (crop_values gb) = 0 \<or> fst (crop_values gb) = EBADMSG"
proof -
  have "err_ok (fst (crop_values gb))"
    by (simp add: crop_values_def case_prod_beta)
  then show ?thesis by (simp add: err_ok_def)
qed

text \<open>
  What the cropping step tests, in the 32-bit arithmetic of the source: with
  \<^verbatim>\<open>frame_cropping_flg\<close> set it returns 0 only if the four values were read and the
  wrapped products \<open>(crop_left + crop_right) * sx\<close> and \<open>(crop_top + crop_bottom) * sy\<close>
  are strictly below \<open>width\<close> and \<open>height\<close>; it then stores the offsets scaled by \<open>sx\<close>
  and \<open>sy\<close>. In every other case, equality included, it returns \<open>EBADMSG\<close>.
\<close>

lemma crop_validation:
  assumes "frame_cropping_flg sps"
  shows "case crop_values gb of (err, crop_left, crop_right, crop_top, crop_bottom) \<Rightarrow>
           if err = 0
              \<and> (crop_left + crop_right) * crop_sx chroma < width sps
              \<and> (crop_top + crop_bottom) * crop_sy chroma frame_mbs_only_flag < height sps
           then fst (sps_crop sps gb chroma frame_mbs_only_flag) = 0
              \<and> fst (snd (sps_crop sps gb chroma frame_mbs_only_flag))
                  = sps\<lparr>frame_crop_left_offset := crop_sx chroma * crop_left,
                        frame_crop_right_offset := crop_sx chroma * crop_right,
                        frame_crop_top_offset := crop_sy chroma frame_mbs_only_flag * crop_top,
                        frame_crop_bottom_offset :=
                          crop_sy chroma frame_mbs_only_flag * crop_bottom\<rparr>
           else fst (sps_crop sps gb chroma frame_mbs_only_flag) = EBADMSG"
  using assms crop_values_err [of gb]
  by (auto simp: crop_values_def sps_crop_def crop_sx_def crop_sy_def case_prod_beta Let_def
        not_le)


lemma crop_validation_rejects_equal:
  "frame_cropping_flg (sps_zero\<lparr>frame_cropping_flg := True, width := 16, height := 16\<rparr>)
   \<and> crop_values (getbit_init [0x13, 0xC0] 16) = (0, 8, 0, 0, 0)
   \<and> (8 + 0) * crop_sx 1 = width (sps_zero\<lparr>frame_cropping_flg := True, width := 16, height := 16\<rparr>)
   \<and> fst (sps_crop (sps_zero\<lparr>frame_cropping_flg := True, width := 16, height := 16\<rparr>)
          (getbit_init [0x13, 0xC0] 16) 1 1) = EBADMSG
   \<and> fst (h264_sps_decode (Some sps_zero) (Some [0x42, 0x00, 0x1E, 0xDD, 0xF1, 0x3C])) = EBADMSG"
proof -
  have f: "frame_cropping_flg (sps_zero\<lparr>frame_cropping_flg := True, width := 16, height := 16\<rparr>)"
    by simp
  have v: "crop_values (getbit_init [0x13, 0xC0] 16) = (0, 8, 0, 0, 0)"
    by code_simp
  have d: "fst (h264_sps_decode (Some sps_zero) (Some [0x42, 0x00, 0x1E, 0xDD, 0xF1, 0x3C])) = EBADMSG"
    by code_simp
  from crop_validation [where gb = "getbit_init [0x13, 0xC0] 16" and chroma = 1
      and frame_mbs_only_flag = 1, OF f] v d
  show ?thesis by (simp add: crop_sx_def)
qed

text \<open>
  C8. With the cropping flag set, a decode should fail unless
  \<open>(crop_left + crop_right) * sx < width\<close> and \<open>(crop_top + crop_bottom) * sy < height\<close>.
  The decoder forms the sum and the product in 32 bits and compares the wrapped
  result. With \<open>crop_left = 0x7FFFFFFE\<close> (30 zero bits, a one, 30 one bits),
  \<open>crop_right = 2\<close> and \<open>sx = 2\<close> the product is \<open>2 ^ 32\<close>, far above the width of 16; it
  wraps to 0, passes the test, and the call returns 0 with a left offset of
  \<open>0xFFFFFFFC\<close> pixels.
\<close>

theorem decode_accepts_wrapped_crop:
  "h264_sps_decode (Some s)
     (Some [0x42, 0x00, 0x1E, 0xDD, 0xF0, 0x00, 0x00, 0x00, 0x3F, 0xFF, 0xFF, 0xFF, 0xBC])
   = (0, Some \<lparr>profile_idc = 66, level_idc = 30, seq_parameter_set_id = 0,
                chroma_format_idc = 1, log2_max_frame_num = 4, pic_order_cnt_type = 2,
                max_num_ref_frames = 0, pic_width_in_mbs = 1,
                pic_height_in_map_units = 1, frame_cropping_flg = True,
                frame_crop_left_offset = 0xFFFFFFFC, frame_crop_right_offset = 4,
                frame_crop_top_offset = 0, frame_crop_bottom_offset = 0,
                width_cropped = 16, height_cropped = 16, width = 16, height = 16\<rparr>)"
  by code_simp

section \<open>Decoding an Exponential-Golomb code word\<close>

lemma bit_extract: "(ucast (drop_bit k (b::uint8)) AND 1 :: unsigned) = of_bool (bit b k)"
  by (rule bit_word_eqI) (auto simp: bit_simps dest: bit_imp_le_length)

lemma get_bit_read:
  assumes "gb_wf gb" and "gb_pos gb < gb_end gb"
  shows "get_bit gb = (of_bool (gb_bit gb (gb_pos gb)), gb\<lparr>gb_pos := gb_pos gb + 1\<rparr>)"
proof -
  from assms have "gb_pos gb div 8 < length (gb_buf gb)" and "\<not> gb_oob gb"
    by (auto simp: gb_wf_def)
  with assms(2) show ?thesis
    by (simp add: get_bit_def Let_def nat_drop_bit_3 nat_and_7 bit_extract gb_bit_def)
qed

lemma gb_bit_advance [simp]: "gb_bit (gb\<lparr>gb_pos := p\<rparr>) k = gb_bit gb k"
  by (simp add: gb_bit_def)

lemma gb_bits_Suc:
  "gb_bits gb (Suc n) = gb_bit gb (gb_pos gb) # gb_bits (gb\<lparr>gb_pos := gb_pos gb + 1\<rparr>) n"
proof -
  have "[gb_pos gb ..< gb_pos gb + Suc n] = gb_pos gb # [gb_pos gb + 1 ..< gb_pos gb + 1 + n]"
    using upt_conv_Cons [of "gb_pos gb" "gb_pos gb + Suc n"] by (simp del: upt_Suc)
  then show ?thesis
    unfolding gb_bits_def by (simp del: upt_Suc)
qed

lemma gb_bits_add:
  "gb_bits gb (m + n) = gb_bits gb m @ gb_bits (gb\<lparr>gb_pos := gb_pos gb + m\<rparr>) n"
proof -
  have "[gb_pos gb ..< gb_pos gb + m + n]
      = [gb_pos gb ..< gb_pos gb + m] @ [gb_pos gb + m ..< gb_pos gb + m + n]"
    by (rule upt_add_eq_append) simp
  then have "map (gb_bit gb) [gb_pos gb ..< gb_pos gb + (m + n)]
      = map (gb_bit gb) [gb_pos gb ..< gb_pos gb + m]
        @ map (gb_bit gb) [gb_pos gb + m ..< gb_pos gb + m + n]"
    by (simp only: add.assoc map_append)
  then show ?thesis
    unfolding gb_bits_def by (simp del: upt_Suc)
qed

lemma golomb_zeros_run:
  assumes "gb_wf gb" and "gb_pos gb + z < gb_end gb"
    and "gb_bits gb (Suc z) = replicate z False @ [True]"
  shows "golomb_zeros gb z0 = (0, z0 + word_of_nat z, gb\<lparr>gb_pos := gb_pos gb + z + 1\<rparr>)"
  using assms
proof (induction z arbitrary: gb z0)
  case 0
  then have "gb_bit gb (gb_pos gb)"
    by (simp add: gb_bits_Suc)
  with 0 show ?case
    by (subst golomb_zeros.simps) (simp add: getbit_get_left_def get_bit_read)
next
  case (Suc z)
  let ?g = "gb\<lparr>gb_pos := gb_pos gb + 1\<rparr>"
  from Suc.prems(3) have b: "\<not> gb_bit gb (gb_pos gb)"
    and rest: "gb_bits ?g (Suc z) = replicate z False @ [True]"
    by (simp_all add: gb_bits_Suc [of gb "Suc z"])
  from Suc.prems have wf: "gb_wf ?g" and lt: "gb_pos ?g + z < gb_end ?g"
    by (simp_all add: gb_wf_def)
  from Suc.prems(1,2) b have "golomb_zeros gb z0 = golomb_zeros ?g (z0 + 1)"
    by (subst golomb_zeros.simps) (simp add: getbit_get_left_def get_bit_read)
  also have "\<dots> = (0, z0 + 1 + word_of_nat z, ?g\<lparr>gb_pos := gb_pos ?g + z + 1\<rparr>)"
    using wf lt rest by (rule Suc.IH)
  finally show ?case by (simp add: add.assoc)
qed

lemma bits_nat_bound: "bits_nat bs < 2 ^ length bs"
proof (induction bs)
  case Nil
  show ?case by simp
next
  case (Cons b bs)
  then show ?case by (cases b) simp_all
qed

lemma nat_exp_add_eq_or:
  fixes m :: nat
  assumes "m < 2 ^ n"
  shows "2 ^ n + m = 2 ^ n OR m"
proof (rule disjunctive_add)
  fix k
  from assms have "take_bit n m = m"
    by (simp add: take_bit_nat_eq_self_iff)
  then have "bit m k \<Longrightarrow> k < n"
    by (metis bit_take_bit_iff)
  then show "\<not> bit ((2::nat) ^ n) k \<or> \<not> bit m k"
    by (auto simp: bit_exp_iff)
qed

lemma word_push_or:
  assumes "m < 2 ^ n"
  shows "push_bit n (of_bool b) OR (word_of_nat m :: unsigned) = word_of_nat (of_bool b * 2 ^ n + m)"
proof (cases b)
  case False
  then show ?thesis by simp
next
  case True
  have "(word_of_nat (2 ^ n + m) :: unsigned) = word_of_nat (2 ^ n OR m)"
    using assms by (simp only: nat_exp_add_eq_or)
  also have "\<dots> = 2 ^ n OR word_of_nat m"
    by (simp add: of_nat_or_eq)
  finally show ?thesis using True by (simp add: push_bit_eq_mult)
qed

lemma golomb_info_run:
  assumes "gb_wf gb" and "gb_pos gb + n \<le> gb_end gb"
  shows "golomb_info gb (int n - 1) info
     = (0, info OR word_of_nat (bits_nat (gb_bits gb n)), gb\<lparr>gb_pos := gb_pos gb + n\<rparr>)"
  using assms
proof (induction n arbitrary: gb info)
  case 0
  show ?case
    by (subst golomb_info.simps) (simp add: gb_bits_def)
next
  case (Suc n)
  let ?g = "gb\<lparr>gb_pos := gb_pos gb + 1\<rparr>"
  let ?b = "gb_bit gb (gb_pos gb)"
  from Suc.prems have wf: "gb_wf ?g" and le: "gb_pos ?g + n \<le> gb_end ?g"
    by (simp_all add: gb_wf_def)
  have len: "length (gb_bits ?g n) = n"
    by (simp add: gb_bits_def)
  from Suc.prems have "golomb_info gb (int (Suc n) - 1) info
      = golomb_info ?g (int n - 1) (info OR push_bit n (of_bool ?b))"
    by (subst golomb_info.simps) (simp add: getbit_get_left_def get_bit_read)
  also have "\<dots> = (0, (info OR push_bit n (of_bool ?b)) OR word_of_nat (bits_nat (gb_bits ?g n)),
      ?g\<lparr>gb_pos := gb_pos ?g + n\<rparr>)"
    using wf le by (rule Suc.IH)
  also have "(info OR push_bit n (of_bool ?b)) OR word_of_nat (bits_nat (gb_bits ?g n))
      = info OR word_of_nat (bits_nat (gb_bits gb (Suc n)))"
  proof -
    have bound: "bits_nat (gb_bits ?g n) < 2 ^ n"
      using bits_nat_bound [of "gb_bits ?g n"] by (simp only: len)
    have "push_bit n (of_bool ?b) OR word_of_nat (bits_nat (gb_bits ?g n))
        = (word_of_nat (bits_nat (gb_bits gb (Suc n))) :: unsigned)"
      by (simp only: gb_bits_Suc bits_nat.simps len word_push_or [OF bound])
    then show ?thesis by (simp only: or.assoc)
  qed
  finally show ?case by simp
qed


lemma sint_pred_of_nat:
  assumes "z < 2 ^ 31"
  shows "sint (word_of_nat z - 1 :: unsigned) = int z - 1"
proof (cases z)
  case 0
  then show ?thesis by simp
next
  case (Suc k)
  with assms have k: "k < 2 ^ 31" by simp
  have "(word_of_nat (Suc k) - 1 :: unsigned) = word_of_nat k"
    by simp
  moreover have "sint (word_of_nat k :: unsigned) = int k"
    using k by (simp add: signed_of_nat signed_take_bit_int_eq_self)
  ultimately show ?thesis using Suc by simp
qed

lemma unat_of_nat_small:
  assumes "z < 2 ^ 31"
  shows "unat (word_of_nat z :: unsigned) = z"
proof -
  from assms have "z < 2 ^ 32" by simp
  then show ?thesis by (simp add: unat_of_nat take_bit_nat_eq_self)
qed

lemma get_ue_golomb_code_word:
  assumes "gb_wf gb" and "gb_pos gb + 2 * z + 1 \<le> gb_end gb" and "z < 2 ^ 31"
    and "gb_bits gb (Suc z) = replicate z False @ [True]"
  shows "get_ue_golomb gb
     = (0, word_of_nat (2 ^ z + bits_nat (gb_bits (gb\<lparr>gb_pos := gb_pos gb + z + 1\<rparr>) z) - 1),
        gb\<lparr>gb_pos := gb_pos gb + 2 * z + 1\<rparr>)"
proof -
  let ?g = "gb\<lparr>gb_pos := gb_pos gb + z + 1\<rparr>"
  let ?m = "bits_nat (gb_bits ?g z)"
  from assms(2) have lt: "gb_pos gb + z < gb_end gb" by simp
  have zs: "golomb_zeros gb 0 = (0, word_of_nat z, ?g)"
    using golomb_zeros_run [OF assms(1) lt assms(4), of 0] by simp
  from assms(1,2) have wf: "gb_wf ?g" and le: "gb_pos ?g + z \<le> gb_end ?g"
    by (simp_all add: gb_wf_def)
  have info: "golomb_info ?g (int z - 1) (push_bit z 1)
      = (0, push_bit z 1 OR word_of_nat ?m, ?g\<lparr>gb_pos := gb_pos ?g + z\<rparr>)"
    using wf le by (rule golomb_info_run)
  have len: "length (gb_bits ?g z) = z"
    by (simp add: gb_bits_def)
  have bound: "?m < 2 ^ z"
    using bits_nat_bound [of "gb_bits ?g z"] by (simp only: len)
  have "push_bit z (of_bool True) OR (word_of_nat ?m :: unsigned) = word_of_nat (of_bool True * 2 ^ z + ?m)"
    using bound by (rule word_push_or)
  then have val: "push_bit z 1 OR (word_of_nat ?m :: unsigned) = word_of_nat (2 ^ z + ?m)"
    by simp
  have "(0::nat) < 2 ^ z" by simp
  then have "1 \<le> 2 ^ z + ?m" by linarith
  then have "(word_of_nat (2 ^ z + ?m - 1) :: unsigned) = word_of_nat (2 ^ z + ?m) - word_of_nat 1"
    by (rule of_nat_diff)
  then have dec: "(push_bit z 1 OR word_of_nat ?m) - 1 = (word_of_nat (2 ^ z + ?m - 1) :: unsigned)"
    by (simp only: val of_nat_1)
  have "get_ue_golomb gb = (0, (push_bit z 1 OR word_of_nat ?m) - 1, ?g\<lparr>gb_pos := gb_pos ?g + z\<rparr>)"
    using zs info
    by (simp add: get_ue_golomb_def sint_pred_of_nat [OF assms(3)]
          unat_of_nat_small [OF assms(3)] del: of_nat_add of_nat_power)
  then show ?thesis
    by (simp only: dec) (simp add: add.assoc)
qed

lemma ue_prefix_len_bounds:
  "0 < m \<Longrightarrow> 2 ^ ue_prefix_len m \<le> m \<and> m < 2 ^ Suc (ue_prefix_len m)"
proof (induction m rule: ue_prefix_len.induct)
  case (1 m)
  show ?case
  proof (cases "m < 2")
    case True
    with "1.prems" show ?thesis
      by (subst (1 2) ue_prefix_len.simps) simp
  next
    case False
    then have "0 < m div 2" by simp
    with "1.IH" [OF False]
    have "2 ^ ue_prefix_len (m div 2) \<le> m div 2" and "m div 2 < 2 ^ Suc (ue_prefix_len (m div 2))"
      by simp_all
    then have "2 * 2 ^ ue_prefix_len (m div 2) \<le> m" and "m < 2 * 2 ^ Suc (ue_prefix_len (m div 2))"
      by linarith+
    with False show ?thesis
      by (subst (1 2) ue_prefix_len.simps) simp
  qed
qed

lemma bits_nat_of_bits: "bits_nat (map (bit (s::nat)) (rev [0..<z])) = take_bit z s"
proof (induction z)
  case 0
  show ?case by simp
next
  case (Suc z)
  then show ?case
    by (simp add: take_bit_Suc_from_most mult.commute)
qed

lemma ue_encode_parts:
  "length (ue_encode v) = Suc (ue_prefix_len (v + 1)) + ue_prefix_len (v + 1)"
  "take (Suc (ue_prefix_len (v + 1))) (ue_encode v)
     = replicate (ue_prefix_len (v + 1)) False @ [True]"
  "drop (Suc (ue_prefix_len (v + 1))) (ue_encode v)
     = map (bit (v + 1 - 2 ^ ue_prefix_len (v + 1))) (rev [0..<ue_prefix_len (v + 1)])"
  by (simp_all add: ue_encode_def Let_def)

text \<open>
  C4. For every \<open>v\<close> below \<open>2 ^ 16\<close>: on a cursor whose next bits are the
  Exponential-Golomb code of \<open>v\<close>, \<^verbatim>\<open>get_ue_golomb\<close> returns 0, yields exactly \<open>v\<close>
  and advances the cursor by exactly the length of the code. The value is
  \<open>(1 << zeros | suffix) - 1\<close>, with \<open>zeros\<close> the number of zero bits before the one
  and \<open>suffix\<close> the \<open>zeros\<close> bits after it. The four fixed points \<open>1\<close>, \<open>010\<close>,
  \<open>011\<close> and \<open>00100\<close> are instances, evaluated after the theorem.
\<close>

theorem ue_golomb_roundtrip:
  assumes "v < 2 ^ 16" and "gb_wf gb" and "gb_pos gb + length (ue_encode v) \<le> gb_end gb"
    and "gb_bits gb (length (ue_encode v)) = ue_encode v"
  shows "get_ue_golomb gb
           = (0, word_of_nat v, gb\<lparr>gb_pos := gb_pos gb + length (ue_encode v)\<rparr>)
     \<and> (push_bit (ue_prefix_len (v + 1)) 1
          OR word_of_nat (bits_nat (drop (Suc (ue_prefix_len (v + 1)))
                                     (gb_bits gb (length (ue_encode v)))))) - 1
         = (word_of_nat v :: unsigned)"
proof -
  define z where "z = ue_prefix_len (v + 1)"
  define s where "s = v + 1 - 2 ^ z"
  define g where "g = gb\<lparr>gb_pos := gb_pos gb + z + 1\<rparr>"
  note parts = ue_encode_parts [of v, folded z_def, folded s_def]
  from ue_prefix_len_bounds [of "v + 1"]
  have lo: "2 ^ z \<le> v + 1" and hi: "v + 1 < 2 ^ Suc z"
    by (simp_all add: z_def)
  have "z < 17"
  proof (rule ccontr)
    assume "\<not> z < 17"
    then have "17 \<le> z" by simp
    then have "(2::nat) ^ 17 \<le> 2 ^ z"
      by (rule power_increasing) simp
    moreover have "(2::nat) ^ 17 = 131072" and "(2::nat) ^ 16 = 65536"
      by simp_all
    ultimately show False
      using lo assms(1) by linarith
  qed
  then have z31: "z < 2 ^ 31" by simp
  have len: "length (ue_encode v) = Suc z + z"
    by (rule parts(1))
  have split: "gb_bits gb (length (ue_encode v)) = gb_bits gb (Suc z) @ gb_bits g z"
    unfolding len g_def using gb_bits_add [of gb "Suc z" z] by simp
  have l1: "length (gb_bits gb (Suc z)) = Suc z"
    by (simp add: gb_bits_def del: upt_Suc)
  from assms(4) split have a: "gb_bits gb (Suc z) @ gb_bits g z = ue_encode v"
    by simp
  then have "gb_bits gb (Suc z) = take (Suc z) (ue_encode v)
      \<and> gb_bits g z = drop (Suc z) (ue_encode v)"
    unfolding append_eq_conv_conj l1 .
  then have pre: "gb_bits gb (Suc z) = replicate z False @ [True]"
    and suf: "gb_bits g z = map (bit s) (rev [0..<z])"
    by (simp_all only: parts)
  from hi lo have s: "s < 2 ^ z"
    by (simp add: s_def)
  have m: "bits_nat (gb_bits g z) = s"
    unfolding suf bits_nat_of_bits using s by (rule take_bit_nat_eq_self)
  from lo have v: "2 ^ z + s = v + 1"
    by (simp add: s_def)
  from assms(3) have room: "gb_pos gb + 2 * z + 1 \<le> gb_end gb"
    by (simp add: len)
  have "get_ue_golomb gb
      = (0, word_of_nat (2 ^ z + bits_nat (gb_bits g z) - 1), gb\<lparr>gb_pos := gb_pos gb + 2 * z + 1\<rparr>)"
    unfolding g_def using assms(2) room z31 pre by (rule get_ue_golomb_code_word)
  then have dec: "get_ue_golomb gb
      = (0, word_of_nat v, gb\<lparr>gb_pos := gb_pos gb + length (ue_encode v)\<rparr>)"
    by (simp add: m v len)
  have "push_bit z (of_bool True) OR (word_of_nat s :: unsigned) = word_of_nat (of_bool True * 2 ^ z + s)"
    using s by (rule word_push_or)
  then have "push_bit z 1 OR (word_of_nat s :: unsigned) = word_of_nat (2 ^ z + s)"
    by simp
  then have p: "(push_bit z 1 OR (word_of_nat s :: unsigned)) - 1 = word_of_nat v"
    by (simp add: v)
  have "drop (Suc z) (gb_bits gb (length (ue_encode v))) = gb_bits g z"
    using split l1 by simp
  then have "(push_bit z 1 OR word_of_nat (bits_nat (drop (Suc z)
      (gb_bits gb (length (ue_encode v)))))) - 1 = (word_of_nat v :: unsigned)"
    by (simp only: m p)
  with dec show ?thesis
    by (simp only: z_def)
qed


theorem ue_golomb_roundtrip_witness:
  "ue_encode 0 = [True] \<and> ue_encode 1 = [False, True, False]
   \<and> ue_encode 2 = [False, True, True] \<and> ue_encode 3 = [False, False, True, False, False]
   \<and> get_ue_golomb (getbit_init [0x80] 8)
        = (0, 0, \<lparr>gb_buf = [0x80], gb_pos = 1, gb_end = 8, gb_oob = False\<rparr>)
   \<and> get_ue_golomb (getbit_init [0x40] 8)
        = (0, 1, \<lparr>gb_buf = [0x40], gb_pos = 3, gb_end = 8, gb_oob = False\<rparr>)
   \<and> get_ue_golomb (getbit_init [0x60] 8)
        = (0, 2, \<lparr>gb_buf = [0x60], gb_pos = 3, gb_end = 8, gb_oob = False\<rparr>)
   \<and> get_ue_golomb (getbit_init [0x20] 8)
        = (0, 3, \<lparr>gb_buf = [0x20], gb_pos = 5, gb_end = 8, gb_oob = False\<rparr>)"
proof -
  have e: "ue_encode 0 = [True]" "ue_encode 1 = [False, True, False]"
    "ue_encode 2 = [False, True, True]" "ue_encode 3 = [False, False, True, False, False]"
    by code_simp+
  have wf: "gb_wf (getbit_init [b] 8)" for b
    by (simp add: gb_wf_def getbit_init_def)
  have r0: "gb_pos (getbit_init [0x80] 8) + length (ue_encode 0) \<le> gb_end (getbit_init [0x80] 8)"
    and b0: "gb_bits (getbit_init [0x80] 8) (length (ue_encode 0)) = ue_encode 0"
    by code_simp+
  have r1: "gb_pos (getbit_init [0x40] 8) + length (ue_encode 1) \<le> gb_end (getbit_init [0x40] 8)"
    and b1: "gb_bits (getbit_init [0x40] 8) (length (ue_encode 1)) = ue_encode 1"
    by code_simp+
  have r2: "gb_pos (getbit_init [0x60] 8) + length (ue_encode 2) \<le> gb_end (getbit_init [0x60] 8)"
    and b2: "gb_bits (getbit_init [0x60] 8) (length (ue_encode 2)) = ue_encode 2"
    by code_simp+
  have r3: "gb_pos (getbit_init [0x20] 8) + length (ue_encode 3) \<le> gb_end (getbit_init [0x20] 8)"
    and b3: "gb_bits (getbit_init [0x20] 8) (length (ue_encode 3)) = ue_encode 3"
    by code_simp+
  have s: "(0::nat) < 2 ^ 16" "(1::nat) < 2 ^ 16" "(2::nat) < 2 ^ 16" "(3::nat) < 2 ^ 16"
    by simp_all
  have d0: "get_ue_golomb (getbit_init [0x80] 8)
        = (0, 0, \<lparr>gb_buf = [0x80], gb_pos = 1, gb_end = 8, gb_oob = False\<rparr>)"
    using ue_golomb_roundtrip [OF s(1) wf r0 b0] by (simp only: e) (simp add: getbit_init_def)
  have d1: "get_ue_golomb (getbit_init [0x40] 8)
        = (0, 1, \<lparr>gb_buf = [0x40], gb_pos = 3, gb_end = 8, gb_oob = False\<rparr>)"
    using ue_golomb_roundtrip [OF s(2) wf r1 b1] by (simp only: e) (simp add: getbit_init_def)
  have d2: "get_ue_golomb (getbit_init [0x60] 8)
        = (0, 2, \<lparr>gb_buf = [0x60], gb_pos = 3, gb_end = 8, gb_oob = False\<rparr>)"
    using ue_golomb_roundtrip [OF s(3) wf r2 b2] by (simp only: e) (simp add: getbit_init_def)
  have d3: "get_ue_golomb (getbit_init [0x20] 8)
        = (0, 3, \<lparr>gb_buf = [0x20], gb_pos = 5, gb_end = 8, gb_oob = False\<rparr>)"
    using ue_golomb_roundtrip [OF s(4) wf r3 b3] by (simp only: e) (simp add: getbit_init_def)
  from e d0 d1 d2 d3 show ?thesis
    by (simp only: simp_thms)
qed

section \<open>When \<^verbatim>\<open>get_ue_golomb\<close> fails\<close>

lemma get_bit_wf: "gb_wf gb \<Longrightarrow> gb_wf (snd (get_bit gb))"
  using get_bit_le [OF gb_le_refl, of gb] by (simp add: gb_le_wf)

lemma golomb_zeros_fail:
  "gb_wf gb \<Longrightarrow>
   fst (golomb_zeros gb z) = 0 \<or> getbit_get_left (snd (snd (golomb_zeros gb z))) = 0"
  by (induction gb z rule: golomb_zeros.induct)
     (subst (1 2) golomb_zeros.simps, simp add: get_bit_wf)

lemma golomb_info_fail:
  "gb_wf gb \<Longrightarrow>
   fst (golomb_info gb i info) = 0 \<or> getbit_get_left (snd (snd (golomb_info gb i info))) = 0"
  by (induction gb i info rule: golomb_info.induct)
     (subst (1 2) golomb_info.simps, simp add: get_bit_wf)

lemma get_ue_golomb_fail:
  assumes "gb_wf gb"
  shows "fst (get_ue_golomb gb) = 0 \<or> getbit_get_left (snd (snd (get_ue_golomb gb))) = 0"
proof -
  have "gb_wf (snd (snd (golomb_zeros gb 0)))"
    using golomb_zeros_le [OF gb_le_refl [OF assms], of 0] by (rule gb_le_wf)
  from golomb_zeros_fail [OF assms, of 0] golomb_info_fail [OF this]
  show ?thesis
    by (auto simp: get_ue_golomb_def case_prod_beta)
qed

text \<open>
  C5. A run of 32 or more leading zeros should be refused with \<open>EBADMSG\<close>.
  \<^verbatim>\<open>get_ue_golomb\<close> has no such test: here 32 zeros, a one and a 32-bit suffix with
  value 1, the code of \<open>2 ^ 32\<close>, are read to the end and the call returns 0 with the
  value 0.
\<close>

theorem ue_golomb_long_run_counterexample:
  "gb_bits (getbit_init [0x00, 0x00, 0x00, 0x00, 0x80, 0x00, 0x00, 0x00, 0x80] 72) 33
     = replicate 32 False @ [True]
   \<and> get_ue_golomb (getbit_init [0x00, 0x00, 0x00, 0x00, 0x80, 0x00, 0x00, 0x00, 0x80] 72)
     = (0, 0, \<lparr>gb_buf = [0x00, 0x00, 0x00, 0x00, 0x80, 0x00, 0x00, 0x00, 0x80],
               gb_pos = 65, gb_end = 72, gb_oob = False\<rparr>)"
  by code_simp

text \<open>
  C5, as amended. \<^verbatim>\<open>get_ue_golomb\<close> fails only by running out of bits: a nonzero
  status is \<open>EBADMSG\<close> and leaves no bit in the cursor. A complete code word with
  fewer than 32 leading zeros is accepted and decoded without wrap-around: the value
  read as a number is \<open>2 ^ zeros + suffix - 1\<close>.
\<close>

theorem ue_golomb_fails_only_when_exhausted:
  assumes "gb_wf gb"
  shows "(fst (get_ue_golomb gb) \<noteq> 0 \<longrightarrow>
            fst (get_ue_golomb gb) = EBADMSG
            \<and> getbit_get_left (snd (snd (get_ue_golomb gb))) = 0)
     \<and> (z < 32 \<and> gb_pos gb + 2 * z + 1 \<le> gb_end gb
          \<and> gb_bits gb (Suc z) = replicate z False @ [True] \<longrightarrow>
            fst (get_ue_golomb gb) = 0
            \<and> unat (fst (snd (get_ue_golomb gb)))
                = 2 ^ z + bits_nat (gb_bits (gb\<lparr>gb_pos := gb_pos gb + z + 1\<rparr>) z) - 1
            \<and> snd (snd (get_ue_golomb gb)) = gb\<lparr>gb_pos := gb_pos gb + 2 * z + 1\<rparr>)"
proof -
  have fail: "fst (get_ue_golomb gb) = EBADMSG \<and> getbit_get_left (snd (snd (get_ue_golomb gb))) = 0"
    if "fst (get_ue_golomb gb) \<noteq> 0"
    using that get_ue_golomb_err [of gb] get_ue_golomb_fail [OF assms]
    by (simp add: err_ok_def)
  have ok: "fst (get_ue_golomb gb) = 0
      \<and> unat (fst (snd (get_ue_golomb gb)))
          = 2 ^ z + bits_nat (gb_bits (gb\<lparr>gb_pos := gb_pos gb + z + 1\<rparr>) z) - 1
      \<and> snd (snd (get_ue_golomb gb)) = gb\<lparr>gb_pos := gb_pos gb + 2 * z + 1\<rparr>"
    if h: "z < 32 \<and> gb_pos gb + 2 * z + 1 \<le> gb_end gb
      \<and> gb_bits gb (Suc z) = replicate z False @ [True]"
  proof -
    let ?g = "gb\<lparr>gb_pos := gb_pos gb + z + 1\<rparr>"
    let ?m = "bits_nat (gb_bits ?g z)"
    from h have z31: "z < 2 ^ 31" by simp
    from h have dec: "get_ue_golomb gb
        = (0, word_of_nat (2 ^ z + ?m - 1), gb\<lparr>gb_pos := gb_pos gb + 2 * z + 1\<rparr>)"
      using get_ue_golomb_code_word [OF assms _ z31] by simp
    have "length (gb_bits ?g z) = z"
      by (simp add: gb_bits_def)
    with bits_nat_bound [of "gb_bits ?g z"] have "?m < 2 ^ z" by simp
    then have "2 ^ z + ?m - 1 < 2 * 2 ^ z" by simp
    also from h have "z \<le> 31" by simp
    then have "2 * (2::nat) ^ z \<le> 2 * 2 ^ 31"
      by (intro mult_left_mono power_increasing) simp_all
    finally have "2 ^ z + ?m - 1 < 2 ^ 32" by simp
    then have "unat (word_of_nat (2 ^ z + ?m - 1) :: unsigned) = 2 ^ z + ?m - 1"
      by (simp only: unat_of_nat) (simp add: take_bit_nat_eq_self)
    with dec show ?thesis by simp
  qed
  from fail ok show ?thesis by blast
qed

theorem ue_golomb_fails_only_when_exhausted_witness:
  "fst (get_ue_golomb (getbit_init [0x20] 4)) = EBADMSG
   \<and> getbit_get_left (snd (snd (get_ue_golomb (getbit_init [0x20] 4)))) = 0
   \<and> fst (get_ue_golomb (getbit_init [0x20] 8)) = 0
   \<and> unat (fst (snd (get_ue_golomb (getbit_init [0x20] 8)))) = 3"
proof -
  have wf: "gb_wf (getbit_init [0x20] n)" if "n \<le> 8" for n
    using that by (simp add: gb_wf_def getbit_init_def)
  have f: "fst (get_ue_golomb (getbit_init [0x20] 4)) \<noteq> 0"
    by code_simp
  have h: "(2::nat) < 32 \<and> gb_pos (getbit_init [0x20] 8) + 2 * 2 + 1 \<le> gb_end (getbit_init [0x20] 8)
      \<and> gb_bits (getbit_init [0x20] 8) (Suc 2) = replicate 2 False @ [True]"
    by code_simp
  have m: "bits_nat (gb_bits (getbit_init [0x20] 8\<lparr>gb_pos := gb_pos (getbit_init [0x20] 8) + 2 + 1\<rparr>) 2) = 0"
    by code_simp
  from ue_golomb_fails_only_when_exhausted [OF wf [of 4], of 0] f
    ue_golomb_fails_only_when_exhausted [OF wf [of 8], of 2] h m
  show ?thesis by simp
qed

end
